theory Spec2Isabelle
  imports Main "HOL-Library.Word" "HOL-Library.AList"
begin

unbundle bit_operations_syntax

section \<open>JavaScript strings\<close>

text \<open>
  A JavaScript string is a sequence of UTF-16 code units. \<open>str\<close> writes an ASCII
  literal as such a string.
\<close>

type_synonym jschar = "16 word"
type_synonym jsstring = "jschar list"

definition str :: "string \<Rightarrow> jsstring" where
  "str s = map (\<lambda>c. of_nat (of_char c)) s"

definition FIELD_SEPARATOR :: jschar where
  "FIELD_SEPARATOR = 0x3A"

definition CR :: jschar where
  "CR = 0x0D"

definition LF :: jschar where
  "LF = 0x0A"

text \<open>
  The code units that \<^verbatim>\<open>trim\<close>, \<^verbatim>\<open>trimEnd\<close> and \<^verbatim>\<open>trimLeft\<close> strip: ECMAScript's
  WhiteSpace (TAB, VT, FF, ZWNBSP and the space separators of Unicode) and LineTerminator
  (LF, CR, LS, PS).
\<close>

definition is_white_space :: "jschar \<Rightarrow> bool" where
  "is_white_space c \<longleftrightarrow>
     c = 0x09 \<or> c = 0x0A \<or> c = 0x0B \<or> c = 0x0C \<or> c = 0x0D \<or> c = 0x20 \<or> c = 0xA0 \<or>
     c = 0x1680 \<or> (0x2000 \<le> c \<and> c \<le> 0x200A) \<or> c = 0x2028 \<or> c = 0x2029 \<or>
     c = 0x202F \<or> c = 0x205F \<or> c = 0x3000 \<or> c = 0xFEFF"

definition trimLeft :: "jsstring \<Rightarrow> jsstring" where
  "trimLeft s = dropWhile is_white_space s"

definition trimEnd :: "jsstring \<Rightarrow> jsstring" where
  "trimEnd s = rev (dropWhile is_white_space (rev s))"

definition trim :: "jsstring \<Rightarrow> jsstring" where
  "trim s = trimLeft (trimEnd s)"

text \<open>\<^verbatim>\<open>s.indexOf(c)\<close>; \<open>None\<close> is the result -1.\<close>

definition indexOf :: "jsstring \<Rightarrow> jschar \<Rightarrow> nat option" where
  "indexOf s c = (if c \<in> set s then Some (length (takeWhile (\<lambda>x. x \<noteq> c) s)) else None)"

subsection \<open>Splitting on a regular expression\<close>

text \<open>
  \<^verbatim>\<open>s.split(re)\<close> for a regular expression that matches no empty string. The matcher
  \<open>re\<close> is tried at the head of what is left: it gives the number of code units
  matched (at least one) and the texts captured by the groups of the expression, which
  \<^verbatim>\<open>split\<close> puts into the result after the piece the match ends. Where the matcher
  fails the code unit belongs to the current piece. The empty string splits into one
  empty piece.
\<close>

fun js_split :: "(jsstring \<Rightarrow> (nat \<times> jsstring list) option) \<Rightarrow> jsstring \<Rightarrow> jsstring list" where
  "js_split re [] = [[]]"
| "js_split re (c # cs) =
     (case re (c # cs) of
        Some (n, captures) \<Rightarrow> [] # captures @ js_split re (drop (n - 1) cs)
      | None \<Rightarrow>
          (case js_split re cs of
             [] \<Rightarrow> [[c]]
           | piece # pieces \<Rightarrow> (c # piece) # pieces))"

text \<open>
  The line expression \<^verbatim>\<open>/\n|\r\n|\r/\<close> of the chunk parser: the alternatives in the
  order the expression tries them, no group.
\<close>

definition line_re :: "jsstring \<Rightarrow> (nat \<times> jsstring list) option" where
  "line_re s =
     (if take 1 s = [LF] then Some (1, [])
      else if take 2 s = [CR, LF] then Some (2, [])
      else if take 1 s = [CR] then Some (1, [])
      else None)"

text \<open>
  The chunk delimiter \<^verbatim>\<open>/(\r\n|\r|\n){2}/g\<close> of the progress callback. \<open>newline_alts\<close>
  lists the lengths of the alternatives of the group that match at the head, in the
  order the expression tries them; the delimiter is the first pair of two successive
  iterations that succeeds (the expression backtracks into the first iteration), and the
  group captures the text of its last iteration.
\<close>

definition newline_alts :: "jsstring \<Rightarrow> nat list" where
  "newline_alts s =
     (if take 2 s = [CR, LF] then [2] else []) @
     (if take 1 s = [CR] then [1] else []) @
     (if take 1 s = [LF] then [1] else [])"

definition blank_line_re :: "jsstring \<Rightarrow> (nat \<times> jsstring list) option" where
  "blank_line_re s =
     (case [(n1, n2). n1 \<leftarrow> newline_alts s, n2 \<leftarrow> newline_alts (drop n1 s)] of
        [] \<Rightarrow> None
      | (n1, n2) # _ \<Rightarrow> Some (n1 + n2, [take n2 (drop n1 s)]))"

section \<open>Events\<close>

datatype XHRStates = INITIALIZING | CONNECTING | OPEN | CLOSED

text \<open>The event objects the transport hands to its callbacks; the engine only passes them on.\<close>

datatype transport_event = ProgressEvent | LoadEvent | ErrorEvent | AbortEvent | ReadyStateChangeEvent

text \<open>
  \<^verbatim>\<open>CustomEventType\<close>: a plain \<^verbatim>\<open>CustomEvent\<close> of some type, a \<^verbatim>\<open>readystatechange\<close>
  event carrying the new state, an \<^verbatim>\<open>error\<close> event carrying the transport's event as
  its reason, or the event of a parsed chunk (type, data, id; the id is \<^verbatim>\<open>null\<close> when the
  chunk has no id line).
\<close>

datatype custom_event =
    CustomEvent jsstring
  | CustomEventReadyStateChange XHRStates
  | CustomEventError transport_event
  | CustomEventData jsstring jsstring "jsstring option"

fun event_type :: "custom_event \<Rightarrow> jsstring" where
  "event_type (CustomEvent t) = t"
| "event_type (CustomEventReadyStateChange st) = str ''readystatechange''"
| "event_type (CustomEventError reason) = str ''error''"
| "event_type (CustomEventData t d i) = t"

section \<open>The event chunk parser\<close>

text \<open>
  The object \<^verbatim>\<open>e\<close> of \<^verbatim>\<open>_parseEventChunk\<close>: its four own properties, and the own
  properties that an assignment to a name inherited from \<^verbatim>\<open>Object.prototype\<close> creates
  (latest first).
\<close>

record parsed_fields =
  e_id :: "jsstring option"
  e_retry :: "jsstring option"
  e_data :: jsstring
  e_event :: jsstring
  e_shadowed :: "(jsstring \<times> jsstring) list"

definition initial_fields :: parsed_fields where
  "initial_fields =
     \<lparr>e_id = None, e_retry = None, e_data = [], e_event = str ''message'', e_shadowed = []\<rparr>"

text \<open>The property names every plain object inherits from \<^verbatim>\<open>Object.prototype\<close>.\<close>

definition Object_prototype_keys :: "jsstring list" where
  "Object_prototype_keys = map str
     [''constructor'', ''__defineGetter__'', ''__defineSetter__'', ''hasOwnProperty'',
      ''__lookupGetter__'', ''__lookupSetter__'', ''isPrototypeOf'', ''propertyIsEnumerable'',
      ''toString'', ''valueOf'', ''__proto__'', ''toLocaleString'']"

text \<open>\<^verbatim>\<open>field in e\<close>: the \<^verbatim>\<open>in\<close> operator also finds inherited properties.\<close>

definition field_in :: "parsed_fields \<Rightarrow> jsstring \<Rightarrow> bool" where
  "field_in e field \<longleftrightarrow>
     field \<in> set (map str [''id'', ''retry'', ''data'', ''event'']) \<or>
     field \<in> set Object_prototype_keys"

text \<open>
  \<^verbatim>\<open>e[field] = value\<close> for a field other than \<^verbatim>\<open>data\<close> that passed the \<^verbatim>\<open>in\<close> test.
  The setter of \<^verbatim>\<open>__proto__\<close> ignores a string; any other inherited name becomes an own
  property of \<^verbatim>\<open>e\<close>.
\<close>

definition assign_field :: "parsed_fields \<Rightarrow> jsstring \<Rightarrow> jsstring \<Rightarrow> parsed_fields" where
  "assign_field e field v =
     (if field = str ''id'' then e\<lparr>e_id := Some v\<rparr>
      else if field = str ''retry'' then e\<lparr>e_retry := Some v\<rparr>
      else if field = str ''event'' then e\<lparr>e_event := v\<rparr>
      else if field = str ''__proto__'' then e
      else e\<lparr>e_shadowed := (field, v) # e_shadowed e\<rparr>)"

text \<open>The body of the \<^verbatim>\<open>forEach\<close> over the lines of a chunk.\<close>

definition parse_line :: "parsed_fields \<Rightarrow> jsstring \<Rightarrow> parsed_fields" where
  "parse_line e line0 =
     (let line = trimEnd line0 in
      case indexOf line FIELD_SEPARATOR of
        None \<Rightarrow> e
      | Some index \<Rightarrow>
          if index = 0 then e
          else
            let field = take index line in
            if \<not> field_in e field then e
            else
              let v = trimLeft (drop (index + 1) line) in
              if field = str ''data'' then e\<lparr>e_data := e_data e @ v\<rparr>
              else assign_field e field v)"

text \<open>The event built from the fields: \<^verbatim>\<open>new CustomEvent(e.event)\<close> with data and id.\<close>

definition event_of :: "parsed_fields \<Rightarrow> custom_event" where
  "event_of e = CustomEventData (e_event e) (e_data e) (e_id e)"

text \<open>\<^verbatim>\<open>_parseEventChunk\<close>; \<open>None\<close> is the result \<^verbatim>\<open>null\<close>.\<close>

definition parseEventChunk :: "jsstring \<Rightarrow> custom_event option" where
  "parseEventChunk chunk =
     (if chunk = [] then None
      else Some (event_of (foldl parse_line initial_fields (js_split line_re chunk))))"

section \<open>The stream engine\<close>

subsection \<open>State\<close>

datatype SSEOptionsMethod = GET | POST

text \<open>
  A plain object with string values, such as the headers dictionary, is the list of its
  own properties in enumeration order.
\<close>

type_synonym dictionary = "(jsstring \<times> jsstring) list"

record SSEOptions =
  headers :: "dictionary option"
  withCredentials :: "bool option"
  http_method :: SSEOptionsMethod
  payload :: "jsstring option"

text \<open>A callback is known by its reference; what it does when called is given separately.\<close>

type_synonym callback = nat

datatype exn = TypeError | SyntaxError | Error jsstring | JsonPatchError jsstring

text \<open>
  What a call of a callback on an event does, as far as the engine can see: it returns,
  leaving the event default-prevented or not, or it throws.
\<close>

datatype cb_outcome = Returns bool | Throws exn

type_synonym callbacks = "callback \<Rightarrow> custom_event \<Rightarrow> cb_outcome"

text \<open>The calls the engine makes on its \<^verbatim>\<open>XMLHttpRequest\<close>.\<close>

datatype xhr_call =
    XhrOpen SSEOptionsMethod jsstring
  | XhrSetRequestHeader jsstring jsstring
  | XhrWithCredentials bool
  | XhrSend "jsstring option"
  | XhrAbort

text \<open>What the engine reads from the transport's object during a callback.\<close>

record XMLHttpRequest =
  status :: nat
  responseText :: jsstring
  xhr_readyState :: nat

definition DONE :: nat where
  "DONE = 4"

text \<open>
  The fields of the class \<^verbatim>\<open>SSE\<close>. \<open>listeners\<close> holds the own array-valued properties of
  the listener object; \<open>own_handlers\<close> holds, by event type, the own properties named
  \<^verbatim>\<open>on<type>\<close> that were put on the instance from outside (the class declares none);
  \<open>xhr\<close> tells whether \<^verbatim>\<open>this.xhr\<close> holds the transport's object. The last three fields
  are the trace of what the engine did: the events passed to \<^verbatim>\<open>dispatchEvent\<close>, the
  callbacks invoked with them, and the calls made on the transport, oldest first.
  Callbacks are taken not to call back into the engine while they run.
\<close>

record SSE =
  url :: jsstring
  options :: SSEOptions
  listeners :: "jsstring \<rightharpoonup> callback list"
  own_handlers :: "jsstring \<rightharpoonup> callback"
  readyState :: XHRStates
  chunk :: jsstring
  progress :: nat
  xhr :: bool
  dispatched :: "custom_event list"
  invoked :: "(callback \<times> custom_event) list"
  xhr_calls :: "xhr_call list"

text \<open>The constructor; the options it is given here always carry a method.\<close>

definition new_SSE :: "jsstring \<Rightarrow> SSEOptions \<Rightarrow> exn + SSE" where
  "new_SSE u opts =
     (if u = [] then Inl (Error (str ''url cannot be null''))
      else Inr \<lparr>url = u, options = opts, listeners = Map.empty, own_handlers = Map.empty,
                readyState = INITIALIZING, chunk = [], progress = 0, xhr = False,
                dispatched = [], invoked = [], xhr_calls = []\<rparr>)"

subsection \<open>The listener registry\<close>

text \<open>
  \<^verbatim>\<open>this.listeners[type]\<close>: an own array, a value inherited from \<^verbatim>\<open>Object.prototype\<close>
  (a function or the prototype itself: truthy, and without the array methods), or
  \<^verbatim>\<open>undefined\<close>.
\<close>

datatype listeners_entry = Own "callback list" | Inherited | Absent

definition listeners_get :: "SSE \<Rightarrow> jsstring \<Rightarrow> listeners_entry" where
  "listeners_get s t =
     (case listeners s t of
        Some cbs \<Rightarrow> Own cbs
      | None \<Rightarrow> if t \<in> set Object_prototype_keys then Inherited else Absent)"

text \<open>
  Registration and removal. For a type named like a property of \<^verbatim>\<open>Object.prototype\<close> the
  entry found is not an array: \<^verbatim>\<open>indexOf\<close> and \<^verbatim>\<open>filter\<close> are not functions on it and
  the call ends in a \<^verbatim>\<open>TypeError\<close>, with no array stored.
\<close>

definition addEventListener :: "SSE \<Rightarrow> jsstring \<Rightarrow> callback \<Rightarrow> exn + SSE" where
  "addEventListener s t listener =
     (case (case listeners_get s t of Own cbs \<Rightarrow> Inr cbs | Absent \<Rightarrow> Inr [] | Inherited \<Rightarrow> Inl TypeError) of
        Inl x \<Rightarrow> Inl x
      | Inr cbs \<Rightarrow>
          Inr (s\<lparr>listeners := (listeners s)(t \<mapsto> (if listener \<in> set cbs then cbs else cbs @ [listener]))\<rparr>))"

definition removeEventListener :: "SSE \<Rightarrow> jsstring \<Rightarrow> callback \<Rightarrow> exn + SSE" where
  "removeEventListener s t listener =
     (case listeners_get s t of
        Absent \<Rightarrow> Inr s
      | Inherited \<Rightarrow> Inl TypeError
      | Own cbs \<Rightarrow>
          (let filteredListeners = filter (\<lambda>lis. lis \<noteq> listener) cbs in
           if filteredListeners = [] then Inr (s\<lparr>listeners := (listeners s)(t := None)\<rparr>)
           else Inr (s\<lparr>listeners := (listeners s)(t \<mapsto> filteredListeners)\<rparr>)))"

subsection \<open>Dispatch\<close>

text \<open>
  \<^verbatim>\<open>callbacks.every(callback => { callback(e); return !e.defaultPrevented })\<close> on a fresh
  event: the callbacks invoked, in order, and the result of \<^verbatim>\<open>every\<close> or the exception a
  callback threw.
\<close>

fun invoke_every :: "callbacks \<Rightarrow> custom_event \<Rightarrow> callback list \<Rightarrow> callback list \<times> (exn + bool)" where
  "invoke_every run e [] = ([], Inr True)"
| "invoke_every run e (c # cs) =
     (case run c e of
        Throws x \<Rightarrow> ([c], Inl x)
      | Returns prevented \<Rightarrow>
          if prevented then ([c], Inr False)
          else (case invoke_every run e cs of (called, r) \<Rightarrow> (c # called, r)))"

text \<open>
  \<^verbatim>\<open>dispatchEvent\<close> on an event the engine has just built (\<open>None\<close> is a missing event):
  the callbacks invoked, in order, and the value returned or the exception thrown.
\<close>

definition dispatchEvent :: "callbacks \<Rightarrow> SSE \<Rightarrow> custom_event option \<Rightarrow> callback list \<times> (exn + bool)" where
  "dispatchEvent run s eo =
     (case eo of
        None \<Rightarrow> ([], Inr True)
      | Some e \<Rightarrow>
          (case (case own_handlers s (event_type e) of
                   None \<Rightarrow> ([], Inr True)
                 | Some onHandler \<Rightarrow>
                     (case run onHandler e of
                        Throws x \<Rightarrow> ([onHandler], Inl x)
                      | Returns prevented \<Rightarrow> ([onHandler], Inr (\<not> prevented)))) of
             (called, Inr True) \<Rightarrow>
               (case listeners_get s (event_type e) of
                  Own cbs \<Rightarrow> (case invoke_every run e cbs of (called', r) \<Rightarrow> (called @ called', r))
                | Inherited \<Rightarrow> (called, Inl TypeError)
                | Absent \<Rightarrow> (called, Inr True))
           | (called, r) \<Rightarrow> (called, r)))"

text \<open>
  An operation of the engine gives the exception that left it, if any, and the state it
  left behind. \<open>then_do\<close> runs the rest of an operation unless an exception has been
  thrown.
\<close>

definition then_do :: "exn option \<times> SSE \<Rightarrow> (SSE \<Rightarrow> exn option \<times> SSE) \<Rightarrow> exn option \<times> SSE" where
  "then_do r f = (case r of (Some x, s) \<Rightarrow> (Some x, s) | (None, s) \<Rightarrow> f s)"

text \<open>
  \<^verbatim>\<open>this.dispatchEvent(e)\<close> as the engine calls it: the value returned is not used; the
  event and the invoked callbacks go into the trace.
\<close>

definition call_dispatchEvent :: "callbacks \<Rightarrow> SSE \<Rightarrow> custom_event \<Rightarrow> exn option \<times> SSE" where
  "call_dispatchEvent run s e =
     (case dispatchEvent run s (Some e) of
        (called, r) \<Rightarrow>
          ((case r of Inl x \<Rightarrow> Some x | Inr b \<Rightarrow> None),
           s\<lparr>dispatched := dispatched s @ [e], invoked := invoked s @ map (\<lambda>c. (c, e)) called\<rparr>))"

subsection \<open>Life cycle and transport callbacks\<close>

text \<open>
  The methods of the class, the private ones under their names without the underscore.
  Each takes the behaviour of the callbacks; a callback of the transport also takes what
  the transport shows at that moment and the event the transport passes.

  The transport calls the engine back from inside its \<^verbatim>\<open>abort\<close>, before that call returns
  and so before \<^verbatim>\<open>close()\<close> releases the transport. What those callbacks do to the engine
  is the parameter \<open>fired\<close> of \<^verbatim>\<open>close()\<close> and of the callbacks that call it; an exception
  in a callback that the transport calls ends in the transport and does not reach
  \<^verbatim>\<open>close()\<close>.
\<close>

type_synonym abort_reaction = "SSE \<Rightarrow> SSE"

definition setReadyState :: "callbacks \<Rightarrow> SSE \<Rightarrow> XHRStates \<Rightarrow> exn option \<times> SSE" where
  "setReadyState run s st =
     call_dispatchEvent run (s\<lparr>readyState := st\<rparr>) (CustomEventReadyStateChange st)"

definition stream :: "callbacks \<Rightarrow> SSE \<Rightarrow> exn option \<times> SSE" where
  "stream run s =
     then_do (setReadyState run s CONNECTING) (\<lambda>s.
       (None, s\<lparr>xhr := True,
                 xhr_calls := xhr_calls s @
                   [XhrOpen (http_method (options s)) (url s),
                    XhrSetRequestHeader (str ''Accept'') (str ''text/event-stream'')] @
                   map (\<lambda>(header, v). XhrSetRequestHeader header v)
                     (case headers (options s) of None \<Rightarrow> [] | Some h \<Rightarrow> h) @
                   [XhrWithCredentials (withCredentials (options s) = Some True),
                    XhrSend (payload (options s))]\<rparr>))"

definition close :: "callbacks \<Rightarrow> abort_reaction \<Rightarrow> SSE \<Rightarrow> exn option \<times> SSE" where
  "close run fired s =
     (if readyState s = CLOSED then (None, s)
      else setReadyState run
             ((if xhr s then fired (s\<lparr>xhr_calls := xhr_calls s @ [XhrAbort]\<rparr>) else s)\<lparr>xhr := False\<rparr>)
             CLOSED)"

definition onStreamFailure ::
  "callbacks \<Rightarrow> abort_reaction \<Rightarrow> SSE \<Rightarrow> transport_event \<Rightarrow> exn option \<times> SSE" where
  "onStreamFailure run fired s e =
     then_do (call_dispatchEvent run s (CustomEventError e)) (close run fired)"

definition onStreamAbort ::
  "callbacks \<Rightarrow> abort_reaction \<Rightarrow> SSE \<Rightarrow> transport_event \<Rightarrow> exn option \<times> SSE" where
  "onStreamAbort run fired s e =
     then_do (call_dispatchEvent run s (CustomEvent (str ''abort''))) (close run fired)"

text \<open>The body of the \<^verbatim>\<open>forEach\<close> over the parts of an increment, and the loop.\<close>

definition process_part :: "callbacks \<Rightarrow> SSE \<Rightarrow> jsstring \<Rightarrow> exn option \<times> SSE" where
  "process_part run s part =
     (if trim part = [] then
        (case parseEventChunk (trim (chunk s)) of
           None \<Rightarrow> (None, s)
         | Some chunkEvent \<Rightarrow>
             then_do (call_dispatchEvent run s chunkEvent) (\<lambda>s. (None, s\<lparr>chunk := []\<rparr>)))
      else (None, s\<lparr>chunk := chunk s @ part\<rparr>))"

fun for_each_part :: "callbacks \<Rightarrow> SSE \<Rightarrow> jsstring list \<Rightarrow> exn option \<times> SSE" where
  "for_each_part run s [] = (None, s)"
| "for_each_part run s (part # parts) =
     then_do (process_part run s part) (\<lambda>s. for_each_part run s parts)"

definition onStreamProgress ::
  "callbacks \<Rightarrow> abort_reaction \<Rightarrow> SSE \<Rightarrow> XMLHttpRequest \<Rightarrow> transport_event \<Rightarrow> exn option \<times> SSE" where
  "onStreamProgress run fired s x e =
     (if \<not> xhr s then (None, s)
      else if status x \<noteq> 200 then onStreamFailure run fired s e
      else
        then_do
          (if readyState s = CONNECTING then
             then_do (call_dispatchEvent run s (CustomEvent (str ''open'')))
               (\<lambda>s. setReadyState run s OPEN)
           else (None, s))
          (\<lambda>s.
             let data = drop (progress s) (responseText x) in
             for_each_part run (s\<lparr>progress := progress s + length data\<rparr>)
               (js_split blank_line_re data)))"

definition onStreamLoaded ::
  "callbacks \<Rightarrow> abort_reaction \<Rightarrow> SSE \<Rightarrow> XMLHttpRequest \<Rightarrow> transport_event \<Rightarrow> exn option \<times> SSE" where
  "onStreamLoaded run fired s x e =
     then_do (onStreamProgress run fired s x e) (\<lambda>s.
       case parseEventChunk (chunk s) of
         None \<Rightarrow> (None, s)
       | Some streamData \<Rightarrow>
           then_do (call_dispatchEvent run s streamData) (\<lambda>s. (None, s\<lparr>chunk := []\<rparr>)))"

definition checkStreamClosed :: "callbacks \<Rightarrow> SSE \<Rightarrow> XMLHttpRequest \<Rightarrow> transport_event \<Rightarrow> exn option \<times> SSE" where
  "checkStreamClosed run s x e =
     (if \<not> xhr s then (None, s)
      else if xhr_readyState x = DONE then setReadyState run s CLOSED
      else (None, s))"

text \<open>
  What an \<^verbatim>\<open>XMLHttpRequest\<close> calls back from inside \<^verbatim>\<open>abort()\<close>. With no request in
  flight (not sent yet, or done, as it is when it calls the load, error or abort
  callback) it calls nothing. With a request in flight it becomes done and calls, in
  this order, the ready-state-change callback and the abort callback; its response is
  then a network error, with the status 0 and no text. The \<^verbatim>\<open>abort()\<close> that the abort
  callback reaches through \<^verbatim>\<open>close()\<close> finds the transport done and calls nothing back.
\<close>

definition silent :: abort_reaction where
  "silent s = s"

definition in_flight :: "callbacks \<Rightarrow> abort_reaction" where
  "in_flight run s =
     snd (onStreamAbort run silent
            (snd (checkStreamClosed run s
                    \<lparr>status = 0, responseText = [], xhr_readyState = DONE\<rparr> ReadyStateChangeEvent))
            AbortEvent)"

text \<open>
  A run of the transport over a response that arrives in increments: one progress
  callback after each increment, with the text received so far, then the load callback
  with the whole text. A callback that ends in an exception does not stop the transport.
  The request is in flight until the transport is done.
\<close>

definition response :: "nat \<Rightarrow> jsstring \<Rightarrow> XMLHttpRequest" where
  "response ready txt = \<lparr>status = 200, responseText = txt, xhr_readyState = ready\<rparr>"

fun progress_callbacks :: "callbacks \<Rightarrow> SSE \<Rightarrow> jsstring \<Rightarrow> jsstring list \<Rightarrow> SSE" where
  "progress_callbacks run s received [] = s"
| "progress_callbacks run s received (increment # increments) =
     progress_callbacks run
       (snd (onStreamProgress run (in_flight run) s (response 3 (received @ increment)) ProgressEvent))
       (received @ increment) increments"

definition deliver :: "callbacks \<Rightarrow> SSE \<Rightarrow> jsstring list \<Rightarrow> SSE" where
  "deliver run s increments =
     snd (onStreamLoaded run silent (progress_callbacks run s [] increments)
            (response DONE (concat increments)) LoadEvent)"

text \<open>The data events: \<^verbatim>\<open>open\<close> and the events of parsed chunks.\<close>

fun is_data_event :: "custom_event \<Rightarrow> bool" where
  "is_data_event (CustomEventData t d i) = True"
| "is_data_event (CustomEvent t) = (t = str ''open'')"
| "is_data_event (CustomEventReadyStateChange st) = False"
| "is_data_event (CustomEventError reason) = False"

definition data_events :: "SSE \<Rightarrow> custom_event list" where
  "data_events s = filter is_data_event (dispatched s)"

text \<open>
  The \<^verbatim>\<open>open\<close> events of the engine itself: the plain events of that type, not the events
  of parsed chunks.
\<close>

definition open_events :: "SSE \<Rightarrow> custom_event list" where
  "open_events s = filter (\<lambda>ev. ev = CustomEvent (str ''open'')) (dispatched s)"

text \<open>Callbacks that return and never prevent the default.\<close>

definition quiet :: callbacks where
  "quiet c e = Returns False"

subsection \<open>Histories of the registry\<close>

text \<open>
  A history of registrations and removals; a call that throws leaves the registry as it
  was.
\<close>

datatype registry_call = Add jsstring callback | Remove jsstring callback

fun apply_call :: "SSE \<Rightarrow> registry_call \<Rightarrow> SSE" where
  "apply_call s (Add t c) = (case addEventListener s t c of Inl x \<Rightarrow> s | Inr s' \<Rightarrow> s')"
| "apply_call s (Remove t c) = (case removeEventListener s t c of Inl x \<Rightarrow> s | Inr s' \<Rightarrow> s')"

text \<open>
  The callbacks registered for a type after a history, in the words of the specification:
  an ordered sequence, insertion order preserved, a callback registered twice for the same
  type not duplicated. Types named like a property of \<^verbatim>\<open>Object.prototype\<close> cannot be
  registered.
\<close>

fun registration_step :: "jsstring \<Rightarrow> callback list \<Rightarrow> registry_call \<Rightarrow> callback list" where
  "registration_step t cbs (Add t' c) =
     (if t' = t \<and> t \<notin> set Object_prototype_keys \<and> c \<notin> set cbs then cbs @ [c] else cbs)"
| "registration_step t cbs (Remove t' c) = (if t' = t then removeAll c cbs else cbs)"

definition registration_order :: "jsstring \<Rightarrow> registry_call list \<Rightarrow> callback list" where
  "registration_order t calls = foldl (registration_step t) [] calls"

text \<open>The listener object that holds, for each type, the callbacks \<open>f\<close> gives, if any.\<close>

definition registry_of :: "(jsstring \<Rightarrow> callback list) \<Rightarrow> jsstring \<rightharpoonup> callback list" where
  "registry_of f = (\<lambda>t. if f t = [] then None else Some (f t))"

section \<open>The subscription\<close>

subsection \<open>Values\<close>

text \<open>
  The values of JavaScript that a JSON text parses to, and \<^verbatim>\<open>undefined\<close>. A number is
  its IEEE 754 binary64 bit pattern; an object is the list of its own properties.
\<close>

datatype jsvalue =
    JUndefined
  | JNull
  | JBoolean bool
  | JNumber "64 word"
  | JString jsstring
  | JArray "jsvalue list"
  | JObject "(jsstring \<times> jsvalue) list"

text \<open>\<^verbatim>\<open>ToBoolean\<close>: a number is falsy when it is +0, -0 or a NaN.\<close>

definition number_is_falsy :: "64 word \<Rightarrow> bool" where
  "number_is_falsy w \<longleftrightarrow>
     w AND 0x7FFFFFFFFFFFFFFF = 0 \<or> 0x7FF0000000000000 < w AND 0x7FFFFFFFFFFFFFFF"

fun ToBoolean :: "jsvalue \<Rightarrow> bool" where
  "ToBoolean JUndefined = False"
| "ToBoolean JNull = False"
| "ToBoolean (JBoolean b) = b"
| "ToBoolean (JNumber w) = (\<not> number_is_falsy w)"
| "ToBoolean (JString s) = (s \<noteq> [])"
| "ToBoolean (JArray xs) = True"
| "ToBoolean (JObject props) = True"

text \<open>
  \<^verbatim>\<open>v.name\<close> for a value other than \<^verbatim>\<open>null\<close> and \<^verbatim>\<open>undefined\<close> and a name that no
  built-in prototype defines (\<^verbatim>\<open>patch\<close>, \<^verbatim>\<open>data\<close>, \<^verbatim>\<open>errors\<close>).
\<close>

definition get_property :: "jsvalue \<Rightarrow> jsstring \<Rightarrow> jsvalue" where
  "get_property v name =
     (case v of
        JObject props \<Rightarrow> (case map_of props name of Some x \<Rightarrow> x | None \<Rightarrow> JUndefined)
      | _ \<Rightarrow> JUndefined)"

subsection \<open>The listener for next events\<close>

text \<open>
  The state of one subscription: the variable \<^verbatim>\<open>lastValue\<close>, and the calls of \<^verbatim>\<open>onData\<close>
  made so far (value, errors), oldest first. \<^verbatim>\<open>onData\<close> is taken to return.
\<close>

record subscription =
  lastValue :: jsvalue
  onData_calls :: "(jsvalue \<times> jsvalue) list"

definition new_subscription :: subscription where
  "new_subscription = \<lparr>lastValue = JNull, onData_calls = []\<rparr>"

text \<open>\<^verbatim>\<open>dataEvent.data\<close>: only the event of a parsed chunk has the property.\<close>

fun event_data :: "custom_event \<Rightarrow> jsstring option" where
  "event_data (CustomEventData t d i) = Some d"
| "event_data (CustomEvent t) = None"
| "event_data (CustomEventReadyStateChange st) = None"
| "event_data (CustomEventError reason) = None"

text \<open>
  The listener of \<^verbatim>\<open>subscribe\<close> for \<^verbatim>\<open>next\<close>. The two libraries it calls are parameters:
  \<open>JSON_parse\<close> gives the parsed value, or \<open>None\<close> where \<^verbatim>\<open>JSON.parse\<close> throws its
  \<^verbatim>\<open>SyntaxError\<close> (as it does on \<^verbatim>\<open>undefined\<close>); \<open>applyPatch\<close> gives the
  \<^verbatim>\<open>newDocument\<close> of the result, or, where the library throws, the exception and the
  document as the library left it (it works on the document it is given, which
  \<^verbatim>\<open>lastValue\<close> goes on referring to). The result is the exception that left the
  listener, if any, and the state of the subscription.
\<close>

definition next_listener ::
  "(jsstring \<Rightarrow> jsvalue option) \<Rightarrow> (jsvalue \<Rightarrow> jsvalue \<Rightarrow> exn \<times> jsvalue + jsvalue) \<Rightarrow>
   subscription \<Rightarrow> custom_event \<Rightarrow> exn option \<times> subscription" where
  "next_listener JSON_parse applyPatch sub event =
     (case (case event_data event of None \<Rightarrow> None | Some d \<Rightarrow> JSON_parse d) of
        None \<Rightarrow> (Some SyntaxError, sub)
      | Some body \<Rightarrow>
          if body = JNull \<or> body = JUndefined then (Some TypeError, sub)
          else
            (case (if ToBoolean (get_property body (str ''patch'')) \<and> ToBoolean (lastValue sub)
                   then applyPatch (lastValue sub) (get_property body (str ''patch''))
                   else if get_property body (str ''data'') \<noteq> JNull
                   then Inr (get_property body (str ''data''))
                   else Inr JNull) of
               Inl (x, left) \<Rightarrow> (Some x, sub\<lparr>lastValue := left\<rparr>)
             | Inr v \<Rightarrow>
                 (None,
                  sub\<lparr>onData_calls := onData_calls sub @ [(v, get_property body (str ''errors''))],
                      lastValue := v\<rparr>)))"

text \<open>
  A patch library given by a table, for concrete runs: the table lists, for a document
  and a patch, what the library returns or throws; no other call is expected.
\<close>

definition patch_table ::
  "((jsvalue \<times> jsvalue) \<times> (exn \<times> jsvalue + jsvalue)) list \<Rightarrow>
   jsvalue \<Rightarrow> jsvalue \<Rightarrow> exn \<times> jsvalue + jsvalue" where
  "patch_table tab doc ops =
     (case map_of tab (doc, ops) of
        Some r \<Rightarrow> r
      | None \<Rightarrow> Inl (Error (str ''unexpected call''), doc))"

subsection \<open>Construction\<close>

text \<open>
  An object literal: the properties are defined from left to right, a later definition
  of a name replacing the value of an earlier one in its place.
\<close>

definition object_literal :: "dictionary \<Rightarrow> dictionary" where
  "object_literal props = foldl (\<lambda>obj (k, v). AList.update k v obj) [] props"

record subscribe_config =
  sub_url :: jsstring
  sub_headers :: "dictionary option"
  sub_payload :: jsstring
  sub_withCredentials :: "bool option"

definition NEXT_LISTENER :: callback where
  "NEXT_LISTENER = 0"

definition ERROR_LISTENER :: callback where
  "ERROR_LISTENER = 1"

text \<open>
  \<^verbatim>\<open>subscribe\<close> up to its \<^verbatim>\<open>return\<close>: the engine is constructed with the merged headers,
  the two listeners are registered and the stream is started. The result is the engine
  the returned function closes, or the exception thrown.
\<close>

definition subscribe :: "callbacks \<Rightarrow> subscribe_config \<Rightarrow> exn + SSE" where
  "subscribe run cfg =
     (case new_SSE (sub_url cfg)
             \<lparr>headers = Some (object_literal
                 ((case sub_headers cfg of None \<Rightarrow> [] | Some h \<Rightarrow> h) @
                  [(str ''X-GQL-Transport'', str ''live-query''),
                   (str ''Content-Type'', str ''application/json'')])),
              withCredentials = sub_withCredentials cfg,
              http_method = POST,
              payload = Some (sub_payload cfg)\<rparr> of
        Inl x \<Rightarrow> Inl x
      | Inr source \<Rightarrow>
          (case addEventListener source (str ''next'') NEXT_LISTENER of
             Inl x \<Rightarrow> Inl x
           | Inr source \<Rightarrow>
               (case addEventListener source (str ''error'') ERROR_LISTENER of
                  Inl x \<Rightarrow> Inl x
                | Inr source \<Rightarrow>
                    (case stream run source of
                       (Some x, source) \<Rightarrow> Inl x
                     | (None, source) \<Rightarrow> Inr source))))"

section \<open>Notions of the specification\<close>

subsection \<open>Lines and fields of a chunk\<close>

text \<open>
  The lines of a chunk as the parser reads them: split at the line breaks, trailing
  white space stripped.
\<close>

definition chunk_lines :: "jsstring \<Rightarrow> jsstring list" where
  "chunk_lines txt = map trimEnd (js_split line_re txt)"

text \<open>The text of a line before its first separator, or the whole line when it has none.\<close>

definition field_name :: "jsstring \<Rightarrow> jsstring" where
  "field_name line = takeWhile (\<lambda>c. c \<noteq> FIELD_SEPARATOR) line"

text \<open>A line of the field called \<open>name\<close>.\<close>

definition is_field_line :: "string \<Rightarrow> jsstring \<Rightarrow> bool" where
  "is_field_line name line \<longleftrightarrow> FIELD_SEPARATOR \<in> set line \<and> field_name line = str name"

text \<open>The text of a line after its first separator, leading white space stripped.\<close>

definition field_value :: "jsstring \<Rightarrow> jsstring" where
  "field_value line = trimLeft (drop 1 (dropWhile (\<lambda>c. c \<noteq> FIELD_SEPARATOR) line))"

text \<open>
  The lines that can contribute to the event: a separator that is not the first
  character, after one of the four recognized field names.
\<close>

definition contributes :: "jsstring \<Rightarrow> bool" where
  "contributes line \<longleftrightarrow>
     FIELD_SEPARATOR \<in> set line \<and> take 1 line \<noteq> [FIELD_SEPARATOR] \<and>
     field_name line \<in> set (map str [''id'', ''event'', ''data'', ''retry''])"

text \<open>The four fields of the wire format, without the shadowing own properties.\<close>

definition core :: "parsed_fields \<Rightarrow> jsstring option \<times> jsstring option \<times> jsstring \<times> jsstring" where
  "core e = (e_id e, e_retry e, e_data e, e_event e)"

subsection \<open>Concrete engines and messages\<close>

text \<open>An engine as the constructor leaves it, and the same engine after \<^verbatim>\<open>stream()\<close>.\<close>

definition example_source :: SSE where
  "example_source =
     \<lparr>url = str ''/events'',
      options = \<lparr>headers = None, withCredentials = None, http_method = GET, payload = None\<rparr>,
      listeners = Map.empty, own_handlers = Map.empty, readyState = INITIALIZING, chunk = [],
      progress = 0, xhr = False, dispatched = [], invoked = [], xhr_calls = []\<rparr>"

definition example_stream :: SSE where
  "example_stream = snd (stream quiet example_source)"

text \<open>
  What the engine sees of a call of the listener for \<^verbatim>\<open>next\<close>: it throws or it returns,
  and it never prevents the default.
\<close>

definition next_listener_outcome ::
  "(jsstring \<Rightarrow> jsvalue option) \<Rightarrow> (jsvalue \<Rightarrow> jsvalue \<Rightarrow> exn \<times> jsvalue + jsvalue) \<Rightarrow>
   subscription \<Rightarrow> custom_event \<Rightarrow> cb_outcome" where
  "next_listener_outcome JSON_parse applyPatch sub event =
     (case fst (next_listener JSON_parse applyPatch sub event) of
        Some x \<Rightarrow> Throws x
      | None \<Rightarrow> Returns False)"

text \<open>The numbers 0, 1 and 2.\<close>

definition number_0 :: "64 word" where
  "number_0 = 0"

definition number_1 :: "64 word" where
  "number_1 = 0x3FF0000000000000"

definition number_2 :: "64 word" where
  "number_2 = 0x4000000000000000"

text \<open>Message bodies, as text and as the value \<^verbatim>\<open>JSON.parse\<close> gives for the text.\<close>

definition full_text :: jsstring where
  \<open>full_text = str ''{"data":{"a":1},"errors":null}''\<close>

definition full_body :: jsvalue where
  "full_body = JObject [(str ''data'', JObject [(str ''a'', JNumber number_1)]), (str ''errors'', JNull)]"

definition replace_text :: jsstring where
  \<open>replace_text = str ''{"patch":[{"op":"replace","path":"/a","value":2}],"errors":null}''\<close>

definition replace_ops :: jsvalue where
  "replace_ops =
     JArray [JObject [(str ''op'', JString (str ''replace'')), (str ''path'', JString (str ''/a'')),
                      (str ''value'', JNumber number_2)]]"

definition replace_body :: jsvalue where
  "replace_body = JObject [(str ''patch'', replace_ops), (str ''errors'', JNull)]"

definition test_text :: jsstring where
  \<open>test_text = str ''{"patch":[{"op":"test","path":"/a","value":2}],"errors":null}''\<close>

definition test_ops :: jsvalue where
  "test_ops =
     JArray [JObject [(str ''op'', JString (str ''test'')), (str ''path'', JString (str ''/a'')),
                      (str ''value'', JNumber number_2)]]"

definition test_body :: jsvalue where
  "test_body = JObject [(str ''patch'', test_ops), (str ''errors'', JNull)]"

definition zero_text :: jsstring where
  \<open>zero_text = str ''{"data":0,"errors":null}''\<close>

definition zero_body :: jsvalue where
  "zero_body = JObject [(str ''data'', JNumber number_0), (str ''errors'', JNull)]"

definition root_text :: jsstring where
  \<open>root_text = str ''{"data":null,"errors":null,"patch":[{"op":"replace","path":"","value":1}]}''\<close>

definition root_ops :: jsvalue where
  "root_ops =
     JArray [JObject [(str ''op'', JString (str ''replace'')), (str ''path'', JString []),
                      (str ''value'', JNumber number_1)]]"

definition root_body :: jsvalue where
  "root_body = JObject [(str ''data'', JNull), (str ''errors'', JNull), (str ''patch'', root_ops)]"

text \<open>
  \<^verbatim>\<open>JSON.parse\<close> on these texts, and what the patch library does with the three patches
  on the documents they meet below.
\<close>

definition example_parse :: "jsstring \<Rightarrow> jsvalue option" where
  "example_parse =
     map_of [(full_text, full_body), (replace_text, replace_body), (test_text, test_body),
             (zero_text, zero_body), (root_text, root_body)]"

definition example_applyPatch :: "jsvalue \<Rightarrow> jsvalue \<Rightarrow> exn \<times> jsvalue + jsvalue" where
  "example_applyPatch =
     patch_table
       [((JObject [(str ''a'', JNumber number_1)], replace_ops),
           Inr (JObject [(str ''a'', JNumber number_2)])),
        ((JObject [(str ''a'', JNumber number_1)], test_ops),
           Inl (JsonPatchError (str ''Test operation failed''),
                JObject [(str ''a'', JNumber number_1)])),
        ((JNumber number_0, root_ops), Inr (JNumber number_1))]"

text \<open>
  Two engines whose state is \<^verbatim>\<open>CLOSED\<close>, after a progress callback has put the text
  \<^verbatim>\<open>data:x\<close>, which no blank line ends, into the pending chunk: one closed by the
  ready-state-change callback when the transport is done, as before every load callback,
  the other closed by \<^verbatim>\<open>close()\<close> while the request is in flight.
\<close>

definition closed_by_transport :: SSE where
  "closed_by_transport =
     snd (checkStreamClosed quiet
            (snd (onStreamProgress quiet (in_flight quiet) example_stream
                    (response 3 (str ''data:x'')) ProgressEvent))
            (response DONE (str ''data:x'')) ReadyStateChangeEvent)"

definition closed_by_close :: SSE where
  "closed_by_close =
     snd (close quiet (in_flight quiet)
            (snd (onStreamProgress quiet (in_flight quiet) example_stream
                    (response 3 (str ''data:x'')) ProgressEvent)))"

text \<open>Callbacks of which the one called \<open>p\<close> prevents the default and the others do not.\<close>

definition prevents_at :: "callback \<Rightarrow> callbacks" where
  "prevents_at p c e = Returns (c = p)"

text \<open>
  The callbacks of a subscription as the engine sees them, while the subscription is in
  the state \<open>sub\<close>.
\<close>

definition subscription_callbacks ::
  "(jsstring \<Rightarrow> jsvalue option) \<Rightarrow> (jsvalue \<Rightarrow> jsvalue \<Rightarrow> exn \<times> jsvalue + jsvalue) \<Rightarrow>
   subscription \<Rightarrow> callbacks" where
  "subscription_callbacks JSON_parse applyPatch sub c event =
     (if c = NEXT_LISTENER then next_listener_outcome JSON_parse applyPatch sub event
      else Returns False)"

definition example_config :: subscribe_config where
  "example_config =
     \<lparr>sub_url = str ''/graphql'',
      sub_headers = Some [(str ''Content-Type'', str ''text/plain''),
                          (str ''Authorization'', str ''Bearer t'')],
      sub_payload = str ''q'', sub_withCredentials = None\<rparr>"

section \<open>Strings: basic facts\<close>

lemma jschar_of_char_eq_iff:
  "(of_nat (of_char c) :: jschar) = of_nat (of_char d) \<longleftrightarrow> c = d"
proof
  assume h: "(of_nat (of_char c) :: jschar) = of_nat (of_char d)"
  have b: "(of_char x :: nat) < 65536" for x :: char
  proof -
    have "(of_char x :: nat) mod 256 = of_char x" by simp
    then have "(of_char x :: nat) < 256" by (metis mod_less_divisor zero_less_numeral)
    then show ?thesis by linarith
  qed
  have "unat (of_nat (of_char c) :: jschar) = unat (of_nat (of_char d) :: jschar)"
    using h by simp
  then have "(of_char c :: nat) = of_char d"
    using b[of c] b[of d] by (simp add: unat_of_nat)
  then show "c = d" by simp
qed simp

lemma str_eq_iff [simp]: "str a = str b \<longleftrightarrow> a = b"
  unfolding str_def
  by (induction a arbitrary: b) (auto simp: jschar_of_char_eq_iff Cons_eq_map_conv map_eq_Cons_conv)

lemma str_eq_Nil_iff [simp]: "str a = [] \<longleftrightarrow> a = []" "[] = str a \<longleftrightarrow> a = []"
  by (auto simp: str_def)

lemma separator_not_white_space: "\<not> is_white_space FIELD_SEPARATOR"
  by (simp add: is_white_space_def FIELD_SEPARATOR_def)

lemma trimEnd_decomp: "\<exists>ws. line = trimEnd line @ ws \<and> (\<forall>c \<in> set ws. is_white_space c)"
proof -
  have "rev line = takeWhile is_white_space (rev line) @ dropWhile is_white_space (rev line)"
    by simp
  then have "line = rev (dropWhile is_white_space (rev line)) @ rev (takeWhile is_white_space (rev line))"
    by (metis rev_append rev_rev_ident)
  moreover have "\<forall>c \<in> set (rev (takeWhile is_white_space (rev line))). is_white_space c"
    by (auto dest: set_takeWhileD)
  ultimately show ?thesis
    unfolding trimEnd_def by blast
qed

lemma separator_in_trimEnd: "FIELD_SEPARATOR \<in> set (trimEnd line) \<longleftrightarrow> FIELD_SEPARATOR \<in> set line"
proof -
  obtain ws where d: "line = trimEnd line @ ws" and w: "\<forall>c \<in> set ws. is_white_space c"
    using trimEnd_decomp by blast
  have "FIELD_SEPARATOR \<notin> set ws"
    using w separator_not_white_space by blast
  then show ?thesis
    by (metis d UnE UnI1 set_append)
qed

lemma field_name_trimEnd:
  assumes "FIELD_SEPARATOR \<in> set line"
  shows "field_name (trimEnd line) = field_name line"
proof -
  obtain ws where d: "line = trimEnd line @ ws"
    using trimEnd_decomp by blast
  have "FIELD_SEPARATOR \<in> set (trimEnd line)"
    using assms separator_in_trimEnd by simp
  then have "takeWhile (\<lambda>c. c \<noteq> FIELD_SEPARATOR) (trimEnd line @ ws) =
             takeWhile (\<lambda>c. c \<noteq> FIELD_SEPARATOR) (trimEnd line)"
    by (intro takeWhile_append1[where x = FIELD_SEPARATOR]) auto
  then show ?thesis
    unfolding field_name_def using d by simp
qed

section \<open>The chunk parser: what a line contributes\<close>

text \<open>The body of the loop, by the field name and the value of the stripped line.\<close>

lemma parse_line_alt:
  "parse_line e line0 =
     (let line = trimEnd line0 in
      if FIELD_SEPARATOR \<notin> set line \<or> field_name line = [] \<or> \<not> field_in e (field_name line) then e
      else if field_name line = str ''data'' then e\<lparr>e_data := e_data e @ field_value line\<rparr>
      else assign_field e (field_name line) (field_value line))"
proof -
  have t: "take (length (takeWhile P xs)) xs = takeWhile P xs" for P and xs :: jsstring
    by (simp add: takeWhile_eq_take[symmetric])
  have d: "drop (Suc (length (takeWhile P xs))) xs = drop 1 (dropWhile P xs)" for P and xs :: jsstring
    by (simp add: dropWhile_eq_drop)
  show ?thesis
    by (simp add: parse_line_def indexOf_def Let_def field_name_def field_value_def t d)
qed

lemma known_fields_in: "field_in e (str ''data'')" "field_in e (str ''event'')"
  by (simp_all add: field_in_def)

lemma field_in_indep: "field_in e f = field_in e' f"
  by (simp add: field_in_def)

lemma e_data_parse_line:
  "e_data (parse_line e line) =
     e_data e @ (if is_field_line ''data'' (trimEnd line) then field_value (trimEnd line) else [])"
  by (auto simp: parse_line_alt Let_def is_field_line_def assign_field_def known_fields_in)

lemma e_event_parse_line:
  "e_event (parse_line e line) =
     (if is_field_line ''event'' (trimEnd line) then field_value (trimEnd line) else e_event e)"
  by (auto simp: parse_line_alt Let_def is_field_line_def assign_field_def known_fields_in)

lemma e_data_foldl:
  "e_data (foldl parse_line e ls) =
     e_data e @ concat (map field_value (filter (is_field_line ''data'') (map trimEnd ls)))"
  by (induction ls arbitrary: e) (simp_all add: e_data_parse_line)

lemma e_event_foldl:
  "\<forall>l \<in> set (map trimEnd ls). \<not> is_field_line ''event'' l \<Longrightarrow>
   e_event (foldl parse_line e ls) = e_event e"
  by (induction ls arbitrary: e) (simp_all add: e_event_parse_line)

text \<open>
  Claim C6. \<^verbatim>\<open>_parseEventChunk\<close> returns \<^verbatim>\<open>null\<close> exactly when the chunk is empty.
  Otherwise the data of the event it returns is the concatenation, in order and with
  nothing in between, of the values of the data lines of the chunk, the value of a line
  being its text after the first separator with leading white space stripped; and the
  type of the event is \<^verbatim>\<open>message\<close> when the chunk has no event line. The lines are the
  lines as the parser reads them, which strips the trailing white space of a line before
  it looks for the separator.
\<close>

theorem parseEventChunk_data_concat:
  "(parseEventChunk txt = None \<longleftrightarrow> txt = []) \<and>
   (\<forall>ev. parseEventChunk txt = Some ev \<longrightarrow>
      event_data ev =
        Some (concat (map field_value (filter (is_field_line ''data'') (chunk_lines txt)))) \<and>
      ((\<forall>l \<in> set (chunk_lines txt). \<not> is_field_line ''event'' l) \<longrightarrow>
         event_type ev = str ''message''))"
  by (auto simp: parseEventChunk_def event_of_def chunk_lines_def e_data_foldl e_event_foldl
      initial_fields_def simp del: set_map)

text \<open>The chunk \<^verbatim>\<open>data:foo\ndata:bar\<close> yields a \<^verbatim>\<open>message\<close> event with the data \<^verbatim>\<open>foobar\<close>.\<close>

theorem parseEventChunk_data_concat_witness:
  "parseEventChunk (str ''data:foo\<newline>data:bar'') \<noteq> None \<and>
   (\<exists>ev. parseEventChunk (str ''data:foo\<newline>data:bar'') = Some ev \<and>
      event_data ev = Some (str ''foobar'') \<and> event_type ev = str ''message'')"
proof -
  let ?X = "str ''data:foo\<newline>data:bar''"
  have ne: "?X \<noteq> []"
    by simp
  have ls: "chunk_lines ?X = [str ''data:foo'', str ''data:bar'']"
    by (simp add: chunk_lines_def str_def line_re_def LF_def CR_def trimEnd_def is_white_space_def)
  have d: "concat (map field_value (filter (is_field_line ''data'') [str ''data:foo'', str ''data:bar''])) =
           str ''foobar''"
    by (simp add: is_field_line_def field_name_def field_value_def FIELD_SEPARATOR_def str_def
        trimLeft_def is_white_space_def)
  have noev: "\<forall>l \<in> set [str ''data:foo'', str ''data:bar'']. \<not> is_field_line ''event'' l"
    by (simp add: is_field_line_def field_name_def FIELD_SEPARATOR_def str_def)
  from parseEventChunk_data_concat[of ?X] ne obtain ev where ev: "parseEventChunk ?X = Some ev"
    by auto
  with parseEventChunk_data_concat[of ?X] ls d noev
  have "event_data ev = Some (str ''foobar'')" and "event_type ev = str ''message''"
    by simp_all
  with ev show ?thesis
    by simp
qed

lemma no_separator_skipped:
  assumes "FIELD_SEPARATOR \<notin> set line \<or> take 1 line = [FIELD_SEPARATOR]"
  shows "parse_line e line = e"
proof (cases "FIELD_SEPARATOR \<in> set line")
  case False
  then show ?thesis
    by (simp add: parse_line_alt Let_def separator_in_trimEnd)
next
  case True
  with assms have "take 1 line = [FIELD_SEPARATOR]" by simp
  then have "field_name line = []"
    by (cases line) (simp_all add: field_name_def)
  then have "field_name (trimEnd line) = []"
    using True field_name_trimEnd by simp
  then show ?thesis
    by (simp add: parse_line_alt Let_def)
qed

lemma unknown_field_core:
  assumes "field_name line \<notin> set (map str [''id'', ''event'', ''data'', ''retry''])"
  shows "core (parse_line e line) = core e"
proof (cases "FIELD_SEPARATOR \<in> set line")
  case False
  then show ?thesis
    using no_separator_skipped by simp
next
  case True
  then have "field_name (trimEnd line) = field_name line"
    by (rule field_name_trimEnd)
  with assms show ?thesis
    by (auto simp: parse_line_alt Let_def assign_field_def core_def)
qed

lemma assign_field_core_cong:
  "core e = core e' \<Longrightarrow> core (assign_field e f v) = core (assign_field e' f v)"
  by (simp add: assign_field_def core_def)

lemma append_data_core_cong:
  "core e = core e' \<Longrightarrow>
   core (e\<lparr>e_data := e_data e @ v\<rparr>) = core (e'\<lparr>e_data := e_data e' @ v\<rparr>)"
  by (simp add: core_def)

lemma parse_line_core_cong:
  assumes c: "core e = core e'"
  shows "core (parse_line e line) = core (parse_line e' line)"
proof -
  let ?l = "trimEnd line"
  show ?thesis
  proof (cases "FIELD_SEPARATOR \<notin> set ?l \<or> field_name ?l = [] \<or> \<not> field_in e (field_name ?l)")
    case True
    then have "parse_line e line = e"
      by (simp add: parse_line_alt Let_def)
    moreover have "parse_line e' line = e'"
      using True field_in_indep[of e "field_name ?l" e'] by (simp add: parse_line_alt Let_def)
    ultimately show ?thesis
      using c by simp
  next
    case False
    then have F': "\<not> (FIELD_SEPARATOR \<notin> set ?l \<or> field_name ?l = [] \<or> \<not> field_in e' (field_name ?l))"
      using field_in_indep[of e "field_name ?l" e'] by simp
    show ?thesis
    proof (cases "field_name ?l = str ''data''")
      case True
      have "parse_line e line = e\<lparr>e_data := e_data e @ field_value ?l\<rparr>"
        using False True by (simp add: parse_line_alt Let_def)
      moreover have "parse_line e' line = e'\<lparr>e_data := e_data e' @ field_value ?l\<rparr>"
        using F' True by (simp add: parse_line_alt Let_def)
      ultimately show ?thesis
        using append_data_core_cong[OF c] by simp
    next
      case other: False
      have "parse_line e line = assign_field e (field_name ?l) (field_value ?l)"
        using False other by (simp add: parse_line_alt Let_def)
      moreover have "parse_line e' line = assign_field e' (field_name ?l) (field_value ?l)"
        using F' other by (simp add: parse_line_alt Let_def)
      ultimately show ?thesis
        using assign_field_core_cong[OF c] by simp
    qed
  qed
qed

lemma foldl_contributes:
  "core e = core e' \<Longrightarrow>
   core (foldl parse_line e ls) = core (foldl parse_line e' (filter contributes ls))"
proof (induction ls arbitrary: e e')
  case Nil
  then show ?case by simp
next
  case (Cons l ls)
  show ?case
  proof (cases "contributes l")
    case True
    have "core (parse_line e l) = core (parse_line e' l)"
      using Cons.prems by (rule parse_line_core_cong)
    then have "core (foldl parse_line (parse_line e l) ls) =
               core (foldl parse_line (parse_line e' l) (filter contributes ls))"
      by (rule Cons.IH)
    then show ?thesis
      using True by simp
  next
    case False
    then have "core (parse_line e l) = core e"
      using no_separator_skipped[of l e] unknown_field_core[of l e]
      unfolding contributes_def by auto
    then have "core (parse_line e l) = core e'"
      using Cons.prems by simp
    then have "core (foldl parse_line (parse_line e l) ls) =
               core (foldl parse_line e' (filter contributes ls))"
      by (rule Cons.IH)
    then show ?thesis
      using False by simp
  qed
qed

lemma event_of_core: "core e = core e' \<Longrightarrow> event_of e = event_of e'"
  by (simp add: core_def event_of_def)

text \<open>
  Claim C5. A line with no separator, or with the separator as its first character,
  leaves the fields as they are. A line whose text before the first separator is not one
  of \<^verbatim>\<open>id\<close>, \<^verbatim>\<open>event\<close>, \<^verbatim>\<open>data\<close>, \<^verbatim>\<open>retry\<close> leaves the four fields and the event built
  from them as they are; this covers the names inherited from \<^verbatim>\<open>Object.prototype\<close>, which
  pass the \<^verbatim>\<open>in\<close> test and are stored on the scratch object but never read. So the event
  of a chunk is the event of its contributing lines alone.
\<close>

theorem ignored_lines_contribute_nothing:
  "(FIELD_SEPARATOR \<notin> set line \<or> take 1 line = [FIELD_SEPARATOR] \<longrightarrow> parse_line e line = e) \<and>
   (field_name line \<notin> set (map str [''id'', ''event'', ''data'', ''retry'']) \<longrightarrow>
      e_id (parse_line e line) = e_id e \<and> e_retry (parse_line e line) = e_retry e \<and>
      e_data (parse_line e line) = e_data e \<and> e_event (parse_line e line) = e_event e \<and>
      event_of (parse_line e line) = event_of e) \<and>
   parseEventChunk txt =
     (if txt = [] then None
      else Some (event_of (foldl parse_line initial_fields
                   (filter contributes (js_split line_re txt)))))"
proof (intro conjI impI)
  assume "FIELD_SEPARATOR \<notin> set line \<or> take 1 line = [FIELD_SEPARATOR]"
  then show "parse_line e line = e" by (rule no_separator_skipped)
next
  assume a: "field_name line \<notin> set (map str [''id'', ''event'', ''data'', ''retry''])"
  have c: "core (parse_line e line) = core e"
    using a by (rule unknown_field_core)
  then show "e_id (parse_line e line) = e_id e" "e_retry (parse_line e line) = e_retry e"
    "e_data (parse_line e line) = e_data e" "e_event (parse_line e line) = e_event e"
    by (simp_all add: core_def)
  show "event_of (parse_line e line) = event_of e"
    using c by (rule event_of_core)
next
  have "core (foldl parse_line initial_fields (js_split line_re txt)) =
        core (foldl parse_line initial_fields (filter contributes (js_split line_re txt)))"
    by (rule foldl_contributes) simp
  then have "event_of (foldl parse_line initial_fields (js_split line_re txt)) =
        event_of (foldl parse_line initial_fields (filter contributes (js_split line_re txt)))"
    by (rule event_of_core)
  then show "parseEventChunk txt =
     (if txt = [] then None
      else Some (event_of (foldl parse_line initial_fields
                   (filter contributes (js_split line_re txt)))))"
    by (simp add: parseEventChunk_def)
qed

text \<open>
  A line without separator, a comment line and a \<^verbatim>\<open>toString\<close> line change nothing of
  the event; a chunk of four lines, three of them ignored, parses as its data line.
\<close>

theorem ignored_lines_contribute_nothing_witness:
  "parse_line initial_fields (str ''just a comment'') = initial_fields \<and>
   parse_line initial_fields (str '':comment'') = initial_fields \<and>
   event_of (parse_line initial_fields (str ''toString:x'')) = event_of initial_fields \<and>
   parseEventChunk (str ''toString:x\<newline>data:1\<newline>:c\<newline>foo:bar'') =
     Some (CustomEventData (str ''message'') (str ''1'') None)"
proof -
  have h1: "FIELD_SEPARATOR \<notin> set (str ''just a comment'') \<or>
            take 1 (str ''just a comment'') = [FIELD_SEPARATOR]"
    by (simp add: str_def FIELD_SEPARATOR_def)
  have h2: "FIELD_SEPARATOR \<notin> set (str '':comment'') \<or> take 1 (str '':comment'') = [FIELD_SEPARATOR]"
    by (simp add: str_def FIELD_SEPARATOR_def)
  have h3: "field_name (str ''toString:x'') \<notin> set (map str [''id'', ''event'', ''data'', ''retry''])"
    by (simp add: str_def FIELD_SEPARATOR_def field_name_def)
  have ls: "filter contributes (js_split line_re (str ''toString:x\<newline>data:1\<newline>:c\<newline>foo:bar'')) =
            [str ''data:1'']"
    by (simp add: str_def line_re_def LF_def CR_def contributes_def FIELD_SEPARATOR_def field_name_def)
  have ev: "event_of (foldl parse_line initial_fields [str ''data:1'']) =
            CustomEventData (str ''message'') (str ''1'') None"
    by (simp add: parse_line_def str_def trimEnd_def trimLeft_def is_white_space_def indexOf_def
        FIELD_SEPARATOR_def field_in_def Object_prototype_keys_def initial_fields_def event_of_def)
  have ne: "str ''toString:x\<newline>data:1\<newline>:c\<newline>foo:bar'' \<noteq> []"
    by (simp add: str_def)
  show ?thesis
    using ignored_lines_contribute_nothing[of "str ''just a comment''" initial_fields "[]"]
      ignored_lines_contribute_nothing[of "str '':comment''" initial_fields "[]"]
      ignored_lines_contribute_nothing[of "str ''toString:x''" initial_fields
        "str ''toString:x\<newline>data:1\<newline>:c\<newline>foo:bar''"]
      h1 h2 h3 ls ev ne
    by simp
qed

section \<open>The engine: traces of the operations\<close>

lemmas string_defs = str_def LF_def CR_def FIELD_SEPARATOR_def is_white_space_def trim_def trimEnd_def
  trimLeft_def indexOf_def blank_line_re_def newline_alts_def line_re_def

lemmas parser_defs = parseEventChunk_def parse_line_def field_in_def Object_prototype_keys_def
  assign_field_def initial_fields_def event_of_def

lemmas engine_defs = process_part_def then_do_def call_dispatchEvent_def dispatchEvent_def
  listeners_get_def setReadyState_def stream_def close_def response_def DONE_def
  onStreamProgress_def onStreamLoaded_def onStreamFailure_def onStreamAbort_def checkStreamClosed_def
  silent_def in_flight_def

lemma call_dispatchEvent_trace:
  "dispatched (snd (call_dispatchEvent run s e)) = dispatched s @ [e]"
  "readyState (snd (call_dispatchEvent run s e)) = readyState s"
  "xhr (snd (call_dispatchEvent run s e)) = xhr s"
  "xhr_calls (snd (call_dispatchEvent run s e)) = xhr_calls s"
  "chunk (snd (call_dispatchEvent run s e)) = chunk s"
  "progress (snd (call_dispatchEvent run s e)) = progress s"
  "listeners (snd (call_dispatchEvent run s e)) = listeners s"
  "own_handlers (snd (call_dispatchEvent run s e)) = own_handlers s"
  by (simp_all add: call_dispatchEvent_def split: prod.splits)

lemma setReadyState_trace:
  "dispatched (snd (setReadyState run s st)) = dispatched s @ [CustomEventReadyStateChange st]"
  "readyState (snd (setReadyState run s st)) = st"
  "xhr (snd (setReadyState run s st)) = xhr s"
  "xhr_calls (snd (setReadyState run s st)) = xhr_calls s"
  "chunk (snd (setReadyState run s st)) = chunk s"
  "progress (snd (setReadyState run s st)) = progress s"
  "listeners (snd (setReadyState run s st)) = listeners s"
  "own_handlers (snd (setReadyState run s st)) = own_handlers s"
  by (simp_all add: setReadyState_def call_dispatchEvent_trace)

lemma close_closed: "readyState s = CLOSED \<Longrightarrow> close run fired s = (None, s)"
  by (simp add: close_def)

lemma close_trace:
  "readyState (snd (close run fired s)) = CLOSED"
  "xhr (snd (close run fired s)) = (xhr s \<and> readyState s = CLOSED)"
  by (simp_all add: close_def setReadyState_trace)

text \<open>With a transport that calls nothing back, \<^verbatim>\<open>close()\<close> dispatches one event.\<close>

lemma close_silent_trace:
  "dispatched (snd (close run silent s)) =
     dispatched s @ (if readyState s = CLOSED then [] else [CustomEventReadyStateChange CLOSED])"
  "xhr_calls (snd (close run silent s)) =
     xhr_calls s @ (if readyState s \<noteq> CLOSED \<and> xhr s then [XhrAbort] else [])"
  by (simp_all add: close_def silent_def setReadyState_trace)

lemma example_stream_eq:
  "example_stream =
     \<lparr>url = str ''/events'',
      options = \<lparr>headers = None, withCredentials = None, http_method = GET, payload = None\<rparr>,
      listeners = Map.empty, own_handlers = Map.empty, readyState = CONNECTING, chunk = [],
      progress = 0, xhr = True, dispatched = [CustomEventReadyStateChange CONNECTING], invoked = [],
      xhr_calls = [XhrOpen GET (str ''/events''),
                   XhrSetRequestHeader (str ''Accept'') (str ''text/event-stream''),
                   XhrWithCredentials False, XhrSend None]\<rparr>"
  by (simp add: example_stream_def example_source_def engine_defs Object_prototype_keys_def)

section \<open>Closing twice\<close>

text \<open>
  \<^verbatim>\<open>close()\<close> on an engine that holds a transport with a request in flight: the
  transport's ready-state-change callback closes the engine from inside \<^verbatim>\<open>abort()\<close>, the
  abort callback dispatches \<^verbatim>\<open>abort\<close> and finds the engine closed, and \<^verbatim>\<open>close()\<close> then
  sets the state once more.
\<close>

lemma close_in_flight_trace:
  assumes "readyState s \<noteq> CLOSED" and "xhr s"
  shows "dispatched (snd (close run (in_flight run) s)) =
           dispatched s @ [CustomEventReadyStateChange CLOSED, CustomEvent (str ''abort''),
                           CustomEventReadyStateChange CLOSED]"
    and "xhr_calls (snd (close run (in_flight run) s)) = xhr_calls s @ [XhrAbort]"
proof -
  let ?s1 = "s\<lparr>xhr_calls := xhr_calls s @ [XhrAbort]\<rparr>"
  let ?s2 = "snd (setReadyState run ?s1 CLOSED)"
  let ?s3 = "snd (call_dispatchEvent run ?s2 (CustomEvent (str ''abort'')))"
  have c: "snd (checkStreamClosed run ?s1
                  \<lparr>status = 0, responseText = [], xhr_readyState = DONE\<rparr> ReadyStateChangeEvent) = ?s2"
    using assms(2) by (simp add: checkStreamClosed_def)
  have "readyState ?s3 = CLOSED"
    by (simp add: call_dispatchEvent_trace setReadyState_trace)
  then have "snd (then_do (call_dispatchEvent run ?s2 (CustomEvent (str ''abort'')))
                     (close run silent)) = ?s3"
    by (cases "call_dispatchEvent run ?s2 (CustomEvent (str ''abort''))";
        cases "fst (call_dispatchEvent run ?s2 (CustomEvent (str ''abort'')))")
      (auto simp: then_do_def close_closed)
  then have f: "in_flight run ?s1 = ?s3"
    by (simp add: in_flight_def onStreamAbort_def c)
  have d: "dispatched ?s3 =
           dispatched s @ [CustomEventReadyStateChange CLOSED, CustomEvent (str ''abort'')]"
    and x: "xhr_calls ?s3 = xhr_calls s @ [XhrAbort]"
    by (simp_all add: call_dispatchEvent_trace setReadyState_trace)
  show "dispatched (snd (close run (in_flight run) s)) =
           dispatched s @ [CustomEventReadyStateChange CLOSED, CustomEvent (str ''abort''),
                           CustomEventReadyStateChange CLOSED]"
    using assms by (simp add: close_def setReadyState_trace f d)
  show "xhr_calls (snd (close run (in_flight run) s)) = xhr_calls s @ [XhrAbort]"
    using assms by (simp add: close_def setReadyState_trace f x)
qed

text \<open>
  Claim C8 has one \<^verbatim>\<open>readystatechange\<close> event to \<^verbatim>\<open>CLOSED\<close> dispatched over two calls of
  \<^verbatim>\<open>close()\<close>. On the engine after \<^verbatim>\<open>stream()\<close>, with its request in flight, the first
  call dispatches two of them, with the \<^verbatim>\<open>abort\<close> event between them: the transport calls
  back from inside \<^verbatim>\<open>abort()\<close>, while the engine still holds it. The rest of the claim
  holds there: the transport is aborted once, by the first call, and the second call
  does nothing.
\<close>

theorem close_in_flight_dispatches_twice:
  "dispatched (snd (close quiet (in_flight quiet) example_stream)) =
     [CustomEventReadyStateChange CONNECTING, CustomEventReadyStateChange CLOSED,
      CustomEvent (str ''abort''), CustomEventReadyStateChange CLOSED] \<and>
   xhr_calls (snd (close quiet (in_flight quiet) example_stream)) =
     xhr_calls example_stream @ [XhrAbort] \<and>
   close quiet (in_flight quiet) (snd (close quiet (in_flight quiet) example_stream)) =
     (None, snd (close quiet (in_flight quiet) example_stream))"
  by (simp add: example_stream_eq engine_defs Object_prototype_keys_def)

section \<open>The headers of a subscription\<close>

lemma map_of_define_properties:
  "distinct (map fst props) \<Longrightarrow>
   map_of (foldl (\<lambda>obj (k, v). AList.update k v obj) acc props) x =
     (case map_of props x of Some v \<Rightarrow> Some v | None \<Rightarrow> map_of acc x)"
proof (induction props arbitrary: acc)
  case Nil
  then show ?case by simp
next
  case (Cons p props)
  obtain k v where p: "p = (k, v)" by (cases p)
  have k: "map_of props k = None"
    using Cons.prems p by (simp add: map_of_eq_None_iff)
  have "map_of (foldl (\<lambda>obj (k, v). AList.update k v obj) (AList.update k v acc) props) x =
        (case map_of props x of Some v \<Rightarrow> Some v | None \<Rightarrow> map_of (AList.update k v acc) x)"
    using Cons.prems by (intro Cons.IH) simp
  then show ?case
    using p k by (simp add: update_conv' split: option.splits)
qed

lemma map_of_object_literal:
  assumes "distinct (map fst h)"
  shows "map_of (object_literal (h @ [(k1, v1), (k2, v2)])) x =
         (if x = k2 then Some v2 else if x = k1 then Some v1 else map_of h x)"
proof -
  have "object_literal (h @ [(k1, v1), (k2, v2)]) =
        AList.update k2 v2 (AList.update k1 v1 (foldl (\<lambda>obj (k, v). AList.update k v obj) [] h))"
    by (simp add: object_literal_def)
  then show ?thesis
    using map_of_define_properties[OF assms, of "[]" x]
    by (simp add: update_conv' split: option.splits)
qed

lemma subscribe_succeeds:
  assumes "sub_url cfg \<noteq> []"
  shows "\<exists>source. subscribe run cfg = Inr source \<and>
     headers (options source) = Some (object_literal
                 ((case sub_headers cfg of None \<Rightarrow> [] | Some h \<Rightarrow> h) @
                  [(str ''X-GQL-Transport'', str ''live-query''),
                   (str ''Content-Type'', str ''application/json'')]))"
  using assms
  by (simp add: subscribe_def new_SSE_def addEventListener_def listeners_get_def
      Object_prototype_keys_def stream_def setReadyState_def call_dispatchEvent_def
      dispatchEvent_def then_do_def)

text \<open>
  Claim C7. For every configuration with an address and a headers dictionary of the
  caller (each name once, the two fixed names among them or not), \<^verbatim>\<open>subscribe\<close>
  constructs the engine, and the headers configured on it map \<^verbatim>\<open>X-GQL-Transport\<close> to
  \<^verbatim>\<open>live-query\<close> and \<^verbatim>\<open>Content-Type\<close> to \<^verbatim>\<open>application/json\<close>, and map every other
  name to what the caller gave for it.
\<close>

theorem fixed_headers_take_precedence:
  assumes u: "sub_url cfg \<noteq> []"
    and d: "distinct (map fst (case sub_headers cfg of None \<Rightarrow> [] | Some h \<Rightarrow> h))"
  shows "\<exists>source h. subscribe run cfg = Inr source \<and> headers (options source) = Some h \<and>
     map_of h (str ''X-GQL-Transport'') = Some (str ''live-query'') \<and>
     map_of h (str ''Content-Type'') = Some (str ''application/json'') \<and>
     (\<forall>k. k \<noteq> str ''X-GQL-Transport'' \<and> k \<noteq> str ''Content-Type'' \<longrightarrow>
        map_of h k = map_of (case sub_headers cfg of None \<Rightarrow> [] | Some h \<Rightarrow> h) k)"
proof -
  let ?caller = "case sub_headers cfg of None \<Rightarrow> [] | Some h \<Rightarrow> h"
  let ?h = "object_literal (?caller @ [(str ''X-GQL-Transport'', str ''live-query''),
                   (str ''Content-Type'', str ''application/json'')])"
  obtain source where s: "subscribe run cfg = Inr source" "headers (options source) = Some ?h"
    using subscribe_succeeds[OF u] by blast
  have "map_of ?h (str ''X-GQL-Transport'') = Some (str ''live-query'')"
    "map_of ?h (str ''Content-Type'') = Some (str ''application/json'')"
    "\<forall>k. k \<noteq> str ''X-GQL-Transport'' \<and> k \<noteq> str ''Content-Type'' \<longrightarrow> map_of ?h k = map_of ?caller k"
    by (simp_all add: map_of_object_literal[OF d])
  with s show ?thesis
    by blast
qed

text \<open>A caller who sets \<^verbatim>\<open>Content-Type\<close> and \<^verbatim>\<open>Authorization\<close>: the first is replaced, the
  second passed through.\<close>

theorem fixed_headers_take_precedence_witness:
  "\<exists>source h.
     subscribe quiet example_config = Inr source \<and>
     headers (options source) = Some h \<and>
     map_of h (str ''X-GQL-Transport'') = Some (str ''live-query'') \<and>
     map_of h (str ''Content-Type'') = Some (str ''application/json'') \<and>
     map_of h (str ''Authorization'') = Some (str ''Bearer t'')"
proof -
  have u: "sub_url example_config \<noteq> []"
    by (simp add: example_config_def)
  have d: "distinct (map fst (case sub_headers example_config of None \<Rightarrow> [] | Some h \<Rightarrow> h))"
    by (simp add: example_config_def)
  from fixed_headers_take_precedence[OF u d, of quiet] obtain source h where
    r: "subscribe quiet example_config = Inr source" "headers (options source) = Some h"
      "map_of h (str ''X-GQL-Transport'') = Some (str ''live-query'')"
      "map_of h (str ''Content-Type'') = Some (str ''application/json'')"
      and other: "\<forall>k. k \<noteq> str ''X-GQL-Transport'' \<and> k \<noteq> str ''Content-Type'' \<longrightarrow>
        map_of h k = map_of (case sub_headers example_config of None \<Rightarrow> [] | Some h \<Rightarrow> h) k"
    by blast
  have "map_of h (str ''Authorization'') = Some (str ''Bearer t'')"
    using other by (simp add: example_config_def)
  with r show ?thesis
    by blast
qed

section \<open>The listener for next events\<close>

subsection \<open>The concrete messages\<close>

lemma texts_distinct:
  "full_text \<noteq> replace_text" "full_text \<noteq> test_text" "full_text \<noteq> zero_text"
  "full_text \<noteq> root_text" "replace_text \<noteq> test_text" "replace_text \<noteq> zero_text"
  "replace_text \<noteq> root_text" "test_text \<noteq> zero_text" "test_text \<noteq> root_text"
  "zero_text \<noteq> root_text"
  by (simp_all add: full_text_def replace_text_def test_text_def zero_text_def root_text_def)

lemma example_parse_simps:
  "example_parse full_text = Some full_body"
  "example_parse replace_text = Some replace_body"
  "example_parse test_text = Some test_body"
  "example_parse zero_text = Some zero_body"
  "example_parse root_text = Some root_body"
  using texts_distinct by (simp_all add: example_parse_def)

lemma ops_distinct: "replace_ops \<noteq> test_ops"
  by (simp add: replace_ops_def test_ops_def)

lemma example_applyPatch_simps:
  "example_applyPatch (JObject [(str ''a'', JNumber number_1)]) replace_ops =
     Inr (JObject [(str ''a'', JNumber number_2)])"
  "example_applyPatch (JObject [(str ''a'', JNumber number_1)]) test_ops =
     Inl (JsonPatchError (str ''Test operation failed''), JObject [(str ''a'', JNumber number_1)])"
  "example_applyPatch (JNumber number_0) root_ops = Inr (JNumber number_1)"
  using ops_distinct by (simp_all add: example_applyPatch_def patch_table_def)

lemma number_truthiness:
  "number_is_falsy number_0" "\<not> number_is_falsy number_1" "\<not> number_is_falsy number_2"
  by (simp_all add: number_is_falsy_def number_0_def number_1_def number_2_def)

lemma body_properties:
  "get_property full_body (str ''patch'') = JUndefined"
  "get_property full_body (str ''data'') = JObject [(str ''a'', JNumber number_1)]"
  "get_property full_body (str ''errors'') = JNull"
  "get_property replace_body (str ''patch'') = replace_ops"
  "get_property replace_body (str ''errors'') = JNull"
  "get_property test_body (str ''patch'') = test_ops"
  "get_property test_body (str ''errors'') = JNull"
  "get_property zero_body (str ''patch'') = JUndefined"
  "get_property zero_body (str ''data'') = JNumber number_0"
  "get_property zero_body (str ''errors'') = JNull"
  "get_property root_body (str ''patch'') = root_ops"
  "get_property root_body (str ''data'') = JNull"
  "get_property root_body (str ''errors'') = JNull"
  by (simp_all add: get_property_def full_body_def replace_body_def test_body_def zero_body_def
      root_body_def)

lemma bodies_not_null:
  "full_body \<noteq> JNull" "full_body \<noteq> JUndefined" "replace_body \<noteq> JNull"
  "replace_body \<noteq> JUndefined" "test_body \<noteq> JNull" "test_body \<noteq> JUndefined"
  "zero_body \<noteq> JNull" "zero_body \<noteq> JUndefined" "root_body \<noteq> JNull" "root_body \<noteq> JUndefined"
  by (simp_all add: full_body_def replace_body_def test_body_def zero_body_def root_body_def)

lemma ops_truthy: "ToBoolean replace_ops" "ToBoolean test_ops" "ToBoolean root_ops"
  by (simp_all add: replace_ops_def test_ops_def root_ops_def)

lemmas example_simps = example_parse_simps example_applyPatch_simps number_truthiness
  body_properties bodies_not_null ops_truthy

subsection \<open>Malformed messages\<close>

lemma subscribe_registry:
  assumes "subscribe run cfg = Inr source"
  shows "listeners source (str ''next'') = Some [NEXT_LISTENER]"
    and "own_handlers source = Map.empty"
  using assms
  by (auto simp: subscribe_def new_SSE_def addEventListener_def listeners_get_def
      Object_prototype_keys_def stream_def setReadyState_def call_dispatchEvent_def
      dispatchEvent_def then_do_def split: if_splits)

lemma dispatchEvent_listeners:
  assumes "own_handlers s (event_type e) = None" "listeners s (event_type e) = Some cbs"
  shows "dispatchEvent run s (Some e) = invoke_every run e cbs"
  using assms by (simp add: dispatchEvent_def listeners_get_def split: prod.splits)

text \<open>
  Claim C10. For every \<^verbatim>\<open>next\<close> event whose data is not valid JSON, the listener ends in
  the exception of \<^verbatim>\<open>JSON.parse\<close>: \<^verbatim>\<open>onData\<close> is not called and \<^verbatim>\<open>lastValue\<close> is as
  before. The exception is not caught on its way out: \<^verbatim>\<open>dispatchEvent\<close> on the engine of
  the subscription, having invoked the listener, ends in the same exception.
\<close>

theorem malformed_json_propagates:
  "JSON_parse d = None \<longrightarrow>
     next_listener JSON_parse applyPatch sub (CustomEventData t d i) = (Some SyntaxError, sub) \<and>
     (\<forall>source. subscribe run cfg = Inr source \<longrightarrow>
        dispatchEvent (subscription_callbacks JSON_parse applyPatch sub) source
          (Some (CustomEventData (str ''next'') d i)) = ([NEXT_LISTENER], Inl SyntaxError))"
proof (intro impI conjI allI)
  assume p: "JSON_parse d = None"
  show n: "next_listener JSON_parse applyPatch sub (CustomEventData t d i) = (Some SyntaxError, sub)"
    for t
    using p by (simp add: next_listener_def)
  fix source
  assume s: "subscribe run cfg = Inr source"
  have "dispatchEvent (subscription_callbacks JSON_parse applyPatch sub) source
          (Some (CustomEventData (str ''next'') d i)) =
        invoke_every (subscription_callbacks JSON_parse applyPatch sub)
          (CustomEventData (str ''next'') d i) [NEXT_LISTENER]"
    using subscribe_registry[OF s] by (intro dispatchEvent_listeners) simp_all
  then show "dispatchEvent (subscription_callbacks JSON_parse applyPatch sub) source
          (Some (CustomEventData (str ''next'') d i)) = ([NEXT_LISTENER], Inl SyntaxError)"
    using n[of "str ''next''"] by (simp add: subscription_callbacks_def next_listener_outcome_def)
qed

text \<open>The text \<^verbatim>\<open>{broken\<close> on a new subscription.\<close>

theorem malformed_json_propagates_witness:
  "next_listener example_parse example_applyPatch new_subscription
     (CustomEventData (str ''next'') (str ''{broken'') None) = (Some SyntaxError, new_subscription) \<and>
   (\<exists>source. subscribe quiet example_config = Inr source \<and>
      dispatchEvent (subscription_callbacks example_parse example_applyPatch new_subscription) source
        (Some (CustomEventData (str ''next'') (str ''{broken'') None)) =
        ([NEXT_LISTENER], Inl SyntaxError))"
proof -
  have p: "example_parse (str ''{broken'') = None"
    by (simp add: example_parse_def full_text_def replace_text_def test_text_def zero_text_def
        root_text_def)
  obtain source where s: "subscribe quiet example_config = Inr source"
    using subscribe_succeeds[of example_config quiet] by (auto simp: example_config_def)
  show ?thesis
    using malformed_json_propagates[of example_parse "str ''{broken''" example_applyPatch
        new_subscription "str ''next''" None quiet example_config] p s
    by simp
qed

subsection \<open>A patch that fails\<close>

text \<open>
  Against claim C2, which has the failure caught and reported through \<^verbatim>\<open>onData\<close>: after
  the value \<^verbatim>\<open>{"a":1}\<close>, a patch whose \<^verbatim>\<open>test\<close> fails leaves the listener as the
  exception of the library, and \<^verbatim>\<open>onData\<close> has only been called for the first message.
\<close>

theorem failed_patch_escapes:
  "next_listener example_parse example_applyPatch new_subscription
     (CustomEventData (str ''next'') full_text None) =
     (None, \<lparr>lastValue = JObject [(str ''a'', JNumber number_1)],
             onData_calls = [(JObject [(str ''a'', JNumber number_1)], JNull)]\<rparr>) \<and>
   next_listener example_parse example_applyPatch
     \<lparr>lastValue = JObject [(str ''a'', JNumber number_1)],
      onData_calls = [(JObject [(str ''a'', JNumber number_1)], JNull)]\<rparr>
     (CustomEventData (str ''next'') test_text None) =
     (Some (JsonPatchError (str ''Test operation failed'')),
      \<lparr>lastValue = JObject [(str ''a'', JNumber number_1)],
       onData_calls = [(JObject [(str ''a'', JNumber number_1)], JNull)]\<rparr>)"
  by (simp add: next_listener_def new_subscription_def example_simps)

text \<open>
  Claim C2, amended. For every subscription and every \<^verbatim>\<open>next\<close> event whose body carries
  a patch that is applied (patch and previous value both truthy) and whose application
  throws, the exception leaves the listener: it is not caught, \<^verbatim>\<open>onData\<close> is not called
  for the event, and \<^verbatim>\<open>lastValue\<close> is not assigned: it refers to the document it referred
  to, as the library left it.
\<close>

theorem failed_patch_throws:
  "event_data ev = Some d \<and> JSON_parse d = Some body \<and> body \<noteq> JNull \<and> body \<noteq> JUndefined \<and>
   ToBoolean (get_property body (str ''patch'')) \<and> ToBoolean (lastValue sub) \<and>
   applyPatch (lastValue sub) (get_property body (str ''patch'')) = Inl (x, left) \<longrightarrow>
   next_listener JSON_parse applyPatch sub ev = (Some x, sub\<lparr>lastValue := left\<rparr>)"
  by (simp add: next_listener_def)

text \<open>The failing \<^verbatim>\<open>test\<close> on \<^verbatim>\<open>{"a":1}\<close>.\<close>

theorem failed_patch_throws_witness:
  "next_listener example_parse example_applyPatch
     \<lparr>lastValue = JObject [(str ''a'', JNumber number_1)], onData_calls = []\<rparr>
     (CustomEventData (str ''next'') test_text None) =
     (Some (JsonPatchError (str ''Test operation failed'')),
      \<lparr>lastValue = JObject [(str ''a'', JNumber number_1)], onData_calls = []\<rparr>)"
  using failed_patch_throws[of "CustomEventData (str ''next'') test_text None" test_text example_parse
      test_body "\<lparr>lastValue = JObject [(str ''a'', JNumber number_1)], onData_calls = []\<rparr>"
      example_applyPatch "JsonPatchError (str ''Test operation failed'')"
      "JObject [(str ''a'', JNumber number_1)]"]
  by (simp add: example_simps)

subsection \<open>The value emitted\<close>

text \<open>
  Against claim C3, which has a patch applied to any stored value and \<^verbatim>\<open>onData\<close> called in
  every case. The stored value 0 is not patched: the patch library would turn it into 1,
  but the listener emits the \<^verbatim>\<open>null\<close> data of the message. And where the application of
  a patch throws, nothing is emitted.
\<close>

theorem falsy_previous_value_not_patched:
  "next_listener example_parse example_applyPatch new_subscription
     (CustomEventData (str ''next'') zero_text None) =
     (None, \<lparr>lastValue = JNumber number_0, onData_calls = [(JNumber number_0, JNull)]\<rparr>) \<and>
   example_applyPatch (JNumber number_0) root_ops = Inr (JNumber number_1) \<and>
   next_listener example_parse example_applyPatch
     \<lparr>lastValue = JNumber number_0, onData_calls = [(JNumber number_0, JNull)]\<rparr>
     (CustomEventData (str ''next'') root_text None) =
     (None, \<lparr>lastValue = JNull, onData_calls = [(JNumber number_0, JNull), (JNull, JNull)]\<rparr>) \<and>
   next_listener example_parse example_applyPatch
     \<lparr>lastValue = JObject [(str ''a'', JNumber number_1)], onData_calls = []\<rparr>
     (CustomEventData (str ''next'') test_text None) =
     (Some (JsonPatchError (str ''Test operation failed'')),
      \<lparr>lastValue = JObject [(str ''a'', JNumber number_1)], onData_calls = []\<rparr>)"
  by (simp add: next_listener_def new_subscription_def example_simps)

text \<open>
  Claim C3, amended. For every \<^verbatim>\<open>next\<close> event whose data parses to a body other than
  \<^verbatim>\<open>null\<close>: if the patch of the body and the previous value are both truthy and the
  application of the patch returns, the value emitted is the document returned; if the
  body has no truthy patch, or no previous value is stored (\<^verbatim>\<open>lastValue\<close> is \<^verbatim>\<open>null\<close> or
  \<^verbatim>\<open>undefined\<close>), the value emitted is the data of the body when that is not \<^verbatim>\<open>null\<close>,
  and \<^verbatim>\<open>null\<close> otherwise. In each of these cases \<^verbatim>\<open>onData\<close> is called once, with the value
  and the errors of the body, and \<^verbatim>\<open>lastValue\<close> becomes the value emitted, also when
  that is \<^verbatim>\<open>null\<close>.
\<close>

theorem next_value:
  "event_data ev = Some d \<and> JSON_parse d = Some body \<and> body \<noteq> JNull \<and> body \<noteq> JUndefined \<longrightarrow>
   (ToBoolean (get_property body (str ''patch'')) \<and> ToBoolean (lastValue sub) \<and>
    applyPatch (lastValue sub) (get_property body (str ''patch'')) = Inr v \<longrightarrow>
      next_listener JSON_parse applyPatch sub ev =
        (None, sub\<lparr>onData_calls := onData_calls sub @ [(v, get_property body (str ''errors''))],
                   lastValue := v\<rparr>)) \<and>
   ((\<not> ToBoolean (get_property body (str ''patch'')) \<or> lastValue sub = JNull \<or>
     lastValue sub = JUndefined) \<and>
    get_property body (str ''data'') \<noteq> JNull \<longrightarrow>
      next_listener JSON_parse applyPatch sub ev =
        (None, sub\<lparr>onData_calls := onData_calls sub @
                     [(get_property body (str ''data''), get_property body (str ''errors''))],
                   lastValue := get_property body (str ''data'')\<rparr>)) \<and>
   ((\<not> ToBoolean (get_property body (str ''patch'')) \<or> lastValue sub = JNull \<or>
     lastValue sub = JUndefined) \<and>
    get_property body (str ''data'') = JNull \<longrightarrow>
      next_listener JSON_parse applyPatch sub ev =
        (None, sub\<lparr>onData_calls := onData_calls sub @ [(JNull, get_property body (str ''errors''))],
                   lastValue := JNull\<rparr>))"
  by (auto simp: next_listener_def)

text \<open>
  A patch on \<^verbatim>\<open>{"a":1}\<close> gives \<^verbatim>\<open>{"a":2}\<close>; a full value on a new subscription is
  emitted as it is; \<^verbatim>\<open>null\<close> data on a new subscription, patch or not, emits \<^verbatim>\<open>null\<close>.
\<close>

theorem next_value_witness:
  "next_listener example_parse example_applyPatch
     \<lparr>lastValue = JObject [(str ''a'', JNumber number_1)], onData_calls = []\<rparr>
     (CustomEventData (str ''next'') replace_text None) =
     (None, \<lparr>lastValue = JObject [(str ''a'', JNumber number_2)],
             onData_calls = [(JObject [(str ''a'', JNumber number_2)], JNull)]\<rparr>) \<and>
   next_listener example_parse example_applyPatch new_subscription
     (CustomEventData (str ''next'') full_text None) =
     (None, \<lparr>lastValue = JObject [(str ''a'', JNumber number_1)],
             onData_calls = [(JObject [(str ''a'', JNumber number_1)], JNull)]\<rparr>) \<and>
   next_listener example_parse example_applyPatch new_subscription
     (CustomEventData (str ''next'') root_text None) =
     (None, \<lparr>lastValue = JNull, onData_calls = [(JNull, JNull)]\<rparr>)"
  using next_value[of "CustomEventData (str ''next'') replace_text None" replace_text example_parse
      replace_body "\<lparr>lastValue = JObject [(str ''a'', JNumber number_1)], onData_calls = []\<rparr>"
      example_applyPatch "JObject [(str ''a'', JNumber number_2)]"]
    next_value[of "CustomEventData (str ''next'') full_text None" full_text example_parse
      full_body new_subscription example_applyPatch JNull]
    next_value[of "CustomEventData (str ''next'') root_text None" root_text example_parse
      root_body new_subscription example_applyPatch JNull]
  by (simp add: example_simps new_subscription_def)

section \<open>Dispatch to the registered callbacks\<close>

lemma invoke_every_all:
  "\<forall>c \<in> set cbs. run c e = Returns False \<Longrightarrow> invoke_every run e cbs = (cbs, Inr True)"
  by (induction cbs) simp_all

lemma invoke_every_stops:
  "i < length cbs \<Longrightarrow> run (cbs ! i) e = Returns True \<Longrightarrow>
   \<forall>j < i. run (cbs ! j) e = Returns False \<Longrightarrow>
   invoke_every run e cbs = (take (Suc i) cbs, Inr False)"
proof (induction cbs arbitrary: i)
  case Nil
  then show ?case by simp
next
  case (Cons c cbs)
  show ?case
  proof (cases i)
    case 0
    then show ?thesis using Cons.prems by simp
  next
    case (Suc k)
    have c: "run c e = Returns False"
      using Cons.prems(3) Suc by (metis nth_Cons_0 zero_less_Suc)
    have "\<forall>j < k. run (cbs ! j) e = Returns False"
      using Cons.prems(3) Suc by (metis Suc_less_eq nth_Cons_Suc)
    then have "invoke_every run e cbs = (take (Suc k) cbs, Inr False)"
      using Cons.prems Suc by (intro Cons.IH) simp_all
    then show ?thesis
      using c Suc by simp
  qed
qed

lemma registration_order_snoc:
  "registration_order t (calls @ [c]) = registration_step t (registration_order t calls) c"
  by (simp add: registration_order_def)

lemma registration_order_inherited:
  "t \<in> set Object_prototype_keys \<Longrightarrow> registration_order t calls = []"
proof (induction calls rule: rev_induct)
  case Nil
  then show ?case by (simp add: registration_order_def)
next
  case (snoc c calls)
  then show ?case
    by (cases c) (simp_all add: registration_order_snoc)
qed

lemma registration_order_distinct: "distinct (registration_order t calls)"
proof (induction calls rule: rev_induct)
  case Nil
  then show ?case by (simp add: registration_order_def)
next
  case (snoc c calls)
  then show ?case
    by (cases c) (simp_all add: registration_order_snoc distinct_removeAll)
qed

text \<open>One call on the engine is one step of the registrations, type by type.\<close>

lemma apply_call_registry:
  assumes r: "listeners s = registry_of f"
    and inh: "\<forall>t \<in> set Object_prototype_keys. f t = []"
  shows "listeners (apply_call s c) = registry_of (\<lambda>t. registration_step t (f t) c)"
proof (cases c)
  case (Add t' cb)
  show ?thesis
  proof (cases "f t' = []")
    case True
    show ?thesis
    proof (cases "t' \<in> set Object_prototype_keys")
      case True
      then show ?thesis
        using r inh Add \<open>f t' = []\<close>
        by (auto simp: addEventListener_def listeners_get_def registry_of_def fun_eq_iff)
    next
      case False
      then show ?thesis
        using r Add \<open>f t' = []\<close>
        by (auto simp: addEventListener_def listeners_get_def registry_of_def fun_eq_iff)
    qed
  next
    case False
    then have "t' \<notin> set Object_prototype_keys"
      using inh by auto
    then show ?thesis
      using r Add False
      by (auto simp: addEventListener_def listeners_get_def registry_of_def fun_eq_iff)
  qed
next
  case (Remove t' cb)
  have f: "filter (\<lambda>lis. lis \<noteq> cb) xs = removeAll cb xs" for xs
    by (induction xs) auto
  show ?thesis
  proof (cases "f t' = []")
    case True
    then show ?thesis
      using r Remove
      by (auto simp: removeEventListener_def listeners_get_def registry_of_def fun_eq_iff)
  next
    case False
    then show ?thesis
      using r Remove
      by (auto simp: removeEventListener_def listeners_get_def registry_of_def fun_eq_iff f Let_def)
  qed
qed

lemma listeners_after_calls:
  assumes "listeners s0 = Map.empty"
  shows "listeners (foldl apply_call s0 calls) = registry_of (\<lambda>t. registration_order t calls)"
proof (induction calls rule: rev_induct)
  case Nil
  then show ?case
    using assms by (simp add: registry_of_def registration_order_def)
next
  case (snoc c calls)
  have "listeners (apply_call (foldl apply_call s0 calls) c) =
        registry_of (\<lambda>t. registration_step t (registration_order t calls) c)"
    using snoc.IH by (rule apply_call_registry) (simp add: registration_order_inherited)
  then show ?case
    by (simp add: registration_order_snoc)
qed

lemma apply_call_own_handlers: "own_handlers (apply_call s c) = own_handlers s"
  by (cases c) (auto simp: addEventListener_def removeEventListener_def Let_def
      split: sum.splits listeners_entry.splits)

lemma own_handlers_after_calls: "own_handlers (foldl apply_call s0 calls) = own_handlers s0"
  by (induction calls rule: rev_induct) (simp_all add: apply_call_own_handlers)

text \<open>
  Claim C9. Take a new engine and any history of registrations and removals, and an event
  of a type that has callbacks registered after it. The engine holds these callbacks in
  the order of their registration, each once. If one of them prevents the default and
  those before it do not, dispatch invokes the callbacks up to and including that one, in
  order, and none after it, and returns false. If none of them prevents the default,
  dispatch invokes every one of them once, in order, and returns true.
\<close>

theorem dispatch_in_registration_order:
  assumes fresh: "new_SSE u opts = Inr s0"
    and reg: "registration_order (event_type e) calls = cbs" "cbs \<noteq> []"
  shows "listeners (foldl apply_call s0 calls) (event_type e) = Some cbs \<and> distinct cbs \<and>
     (\<forall>i < length cbs.
        run (cbs ! i) e = Returns True \<and> (\<forall>j < i. run (cbs ! j) e = Returns False) \<longrightarrow>
        dispatchEvent run (foldl apply_call s0 calls) (Some e) = (take (Suc i) cbs, Inr False)) \<and>
     ((\<forall>c \<in> set cbs. run c e = Returns False) \<longrightarrow>
        dispatchEvent run (foldl apply_call s0 calls) (Some e) = (cbs, Inr True))"
proof -
  let ?s = "foldl apply_call s0 calls"
  have e: "listeners s0 = Map.empty" "own_handlers s0 = Map.empty"
    using fresh by (auto simp: new_SSE_def split: if_splits)
  have l: "listeners ?s (event_type e) = Some cbs"
    using reg by (simp add: listeners_after_calls[OF e(1)] registry_of_def)
  have o: "own_handlers ?s (event_type e) = None"
    by (simp add: own_handlers_after_calls e(2))
  have d: "dispatchEvent run ?s (Some e) = invoke_every run e cbs"
    using o l by (rule dispatchEvent_listeners)
  have "distinct cbs"
    using reg(1) registration_order_distinct by blast
  then show ?thesis
    using l d invoke_every_all[of cbs run e] invoke_every_stops[of _ cbs run e] by auto
qed

text \<open>
  Callbacks 7, 8 and 9 registered for \<^verbatim>\<open>next\<close>, 7 twice: when 8 prevents the default, 7
  and 8 are invoked; when none does, 7, 8 and 9 are.
\<close>

theorem dispatch_in_registration_order_witness:
  "dispatchEvent (prevents_at 8)
     (foldl apply_call example_source
        [Add (str ''next'') 7, Add (str ''next'') 8, Add (str ''other'') 5, Add (str ''next'') 7,
         Add (str ''next'') 9])
     (Some (CustomEventData (str ''next'') (str ''1'') None)) = ([7, 8], Inr False) \<and>
   dispatchEvent quiet
     (foldl apply_call example_source
        [Add (str ''next'') 7, Add (str ''next'') 8, Add (str ''other'') 5, Add (str ''next'') 7,
         Add (str ''next'') 9])
     (Some (CustomEventData (str ''next'') (str ''1'') None)) = ([7, 8, 9], Inr True)"
proof -
  let ?calls = "[Add (str ''next'') 7, Add (str ''next'') 8, Add (str ''other'') 5,
                 Add (str ''next'') 7, Add (str ''next'') 9]"
  let ?e = "CustomEventData (str ''next'') (str ''1'') None"
  have f: "new_SSE (str ''/events'')
             \<lparr>headers = None, withCredentials = None, http_method = GET, payload = None\<rparr> =
           Inr example_source"
    by (simp add: new_SSE_def example_source_def)
  have r: "registration_order (event_type ?e) ?calls = [7, 8, 9]"
    by (simp add: registration_order_def Object_prototype_keys_def)
  have n: "[7, 8, 9] \<noteq> ([] :: callback list)"
    by simp
  have p: "prevents_at 8 ([7, 8, 9] ! 1) ?e = Returns True \<and>
           (\<forall>j < 1. prevents_at 8 ([7, 8, 9] ! j) ?e = Returns False)"
    by (simp add: prevents_at_def)
  have q: "\<forall>c \<in> set [7, 8, 9]. quiet c ?e = Returns False"
    by (simp add: quiet_def)
  have l: "1 < length ([7, 8, 9] :: callback list)"
    by simp
  have "dispatchEvent (prevents_at 8) (foldl apply_call example_source ?calls) (Some ?e) =
          (take (Suc 1) [7, 8, 9], Inr False)"
    using dispatch_in_registration_order[OF f r n, of "prevents_at 8"] p l by blast
  moreover have "dispatchEvent quiet (foldl apply_call example_source ?calls) (Some ?e) =
          ([7, 8, 9], Inr True)"
    using dispatch_in_registration_order[OF f r n, of quiet] q by blast
  ultimately show ?thesis
    by simp
qed

section \<open>After the engine is closed\<close>

lemma then_do_invariant:
  assumes "P (snd r)" and "\<And>s. P s \<Longrightarrow> P (snd (f s))"
  shows "P (snd (then_do r f))"
  using assms by (cases r; cases "fst r") (auto simp: then_do_def)

lemma process_part_readyState: "readyState (snd (process_part run s part)) = readyState s"
proof -
  have "readyState (snd (then_do (call_dispatchEvent run s ev) (\<lambda>s. (None, s\<lparr>chunk := []\<rparr>)))) =
        readyState s" for ev
    by (rule then_do_invariant[where P = "\<lambda>s'. readyState s' = readyState s"])
      (simp_all add: call_dispatchEvent_trace)
  then show ?thesis
    by (simp add: process_part_def split: option.splits)
qed

lemma for_each_part_readyState: "readyState (snd (for_each_part run s parts)) = readyState s"
proof (induction parts arbitrary: s)
  case Nil
  then show ?case by simp
next
  case (Cons part parts)
  have "readyState (snd (then_do (process_part run s part) (\<lambda>s. for_each_part run s parts))) =
        readyState s"
    by (rule then_do_invariant[where P = "\<lambda>s'. readyState s' = readyState s"])
      (simp_all add: process_part_readyState Cons.IH)
  then show ?case by simp
qed

lemma onStreamFailure_closed:
  "readyState (snd (onStreamFailure run fired s e)) = CLOSED \<or>
   readyState (snd (onStreamFailure run fired s e)) = readyState s"
  unfolding onStreamFailure_def
  by (rule then_do_invariant[where P = "\<lambda>s'. readyState s' = CLOSED \<or> readyState s' = readyState s"])
    (simp_all add: call_dispatchEvent_trace close_trace)

lemma onStreamAbort_closed:
  "readyState (snd (onStreamAbort run fired s e)) = CLOSED \<or>
   readyState (snd (onStreamAbort run fired s e)) = readyState s"
  unfolding onStreamAbort_def
  by (rule then_do_invariant[where P = "\<lambda>s'. readyState s' = CLOSED \<or> readyState s' = readyState s"])
    (simp_all add: call_dispatchEvent_trace close_trace)

lemma onStreamProgress_closed:
  assumes "readyState s = CLOSED"
  shows "readyState (snd (onStreamProgress run fired s x e)) = CLOSED"
  using assms onStreamFailure_closed[of run fired s e]
  by (auto simp: onStreamProgress_def then_do_def Let_def for_each_part_readyState)

lemma onStreamLoaded_closed:
  assumes "readyState s = CLOSED"
  shows "readyState (snd (onStreamLoaded run fired s x e)) = CLOSED"
  unfolding onStreamLoaded_def
proof (rule then_do_invariant[where P = "\<lambda>s'. readyState s' = CLOSED"])
  show "readyState (snd (onStreamProgress run fired s x e)) = CLOSED"
    using assms by (rule onStreamProgress_closed)
next
  fix s' :: SSE
  assume c: "readyState s' = CLOSED"
  have "readyState (snd (then_do (call_dispatchEvent run s' ev) (\<lambda>s. (None, s\<lparr>chunk := []\<rparr>)))) =
        CLOSED" for ev
    by (rule then_do_invariant[where P = "\<lambda>s'. readyState s' = CLOSED"])
      (simp_all add: call_dispatchEvent_trace c)
  then show "readyState (snd (case parseEventChunk (chunk s') of
         None \<Rightarrow> (None, s')
       | Some streamData \<Rightarrow>
           then_do (call_dispatchEvent run s' streamData) (\<lambda>s. (None, s\<lparr>chunk := []\<rparr>)))) = CLOSED"
    using c by (simp split: option.splits)
qed

lemma checkStreamClosed_closed:
  assumes "readyState s = CLOSED"
  shows "readyState (snd (checkStreamClosed run s x e)) = CLOSED"
  using assms by (simp add: checkStreamClosed_def setReadyState_trace)

lemma checkStreamClosed_data_events:
  "data_events (snd (checkStreamClosed run s x e)) = data_events s"
  by (simp add: checkStreamClosed_def setReadyState_trace data_events_def)

lemma closed_failure_trace:
  assumes "readyState s = CLOSED"
  shows "dispatched (snd (onStreamFailure run fired s e)) = dispatched s @ [CustomEventError e]"
    and "dispatched (snd (onStreamAbort run fired s e)) = dispatched s @ [CustomEvent (str ''abort'')]"
proof -
  have "dispatched (snd (then_do (call_dispatchEvent run s ev) (close run fired))) = dispatched s @ [ev]"
    for ev
  proof (cases "call_dispatchEvent run s ev")
    case (Pair r s')
    have s': "dispatched s' = dispatched s @ [ev]" "readyState s' = CLOSED"
      using call_dispatchEvent_trace(1,2)[of run s ev] Pair assms by simp_all
    show ?thesis
      using Pair s' by (cases r) (simp_all add: then_do_def close_closed)
  qed
  then show "dispatched (snd (onStreamFailure run fired s e)) = dispatched s @ [CustomEventError e]"
    and "dispatched (snd (onStreamAbort run fired s e)) = dispatched s @ [CustomEvent (str ''abort'')]"
    by (simp_all add: onStreamFailure_def onStreamAbort_def)
qed

text \<open>The event of a parsed chunk is not the engine's \<^verbatim>\<open>open\<close> event.\<close>

lemma parseEventChunk_not_open:
  "parseEventChunk c = Some ev \<Longrightarrow> ev \<noteq> CustomEvent (str ''open'')"
  by (auto simp: parseEventChunk_def event_of_def split: if_splits)

lemma flush_open_events:
  assumes "ev \<noteq> CustomEvent (str ''open'')"
  shows "open_events (snd (then_do (call_dispatchEvent run s ev) (\<lambda>s. (None, s\<lparr>chunk := []\<rparr>)))) =
         open_events s"
  by (rule then_do_invariant[where P = "\<lambda>s'. open_events s' = open_events s"])
    (simp_all add: open_events_def call_dispatchEvent_trace assms)

lemma process_part_open_events: "open_events (snd (process_part run s part)) = open_events s"
proof (cases "trim part = []")
  case True
  show ?thesis
  proof (cases "parseEventChunk (trim (chunk s))")
    case None
    then show ?thesis using True by (simp add: process_part_def)
  next
    case (Some ev)
    then have "ev \<noteq> CustomEvent (str ''open'')"
      by (rule parseEventChunk_not_open)
    then show ?thesis
      using True Some by (simp add: process_part_def flush_open_events)
  qed
next
  case False
  then show ?thesis by (simp add: process_part_def open_events_def)
qed

lemma for_each_part_open_events: "open_events (snd (for_each_part run s parts)) = open_events s"
proof (induction parts arbitrary: s)
  case Nil
  then show ?case by simp
next
  case (Cons part parts)
  have "open_events (snd (then_do (process_part run s part) (\<lambda>s. for_each_part run s parts))) =
        open_events s"
    by (rule then_do_invariant[where P = "\<lambda>s'. open_events s' = open_events s"])
      (simp_all add: process_part_open_events Cons.IH)
  then show ?case by simp
qed

lemma onStreamProgress_open_events:
  assumes "readyState s = CLOSED"
  shows "open_events (snd (onStreamProgress run fired s x e)) = open_events s"
proof -
  have "open_events (snd (onStreamFailure run fired s e)) = open_events s"
    using closed_failure_trace(1)[OF assms, of run fired e] by (simp add: open_events_def)
  moreover have "open_events (snd (for_each_part run (s\<lparr>progress := n\<rparr>) parts)) = open_events s"
    for n parts
    by (simp add: for_each_part_open_events) (simp add: open_events_def)
  ultimately show ?thesis
    using assms by (simp add: onStreamProgress_def then_do_def Let_def)
qed

lemma onStreamLoaded_open_events:
  assumes "readyState s = CLOSED"
  shows "open_events (snd (onStreamLoaded run fired s x e)) = open_events s"
  unfolding onStreamLoaded_def
proof (rule then_do_invariant[where P = "\<lambda>s'. open_events s' = open_events s"])
  show "open_events (snd (onStreamProgress run fired s x e)) = open_events s"
    using assms by (rule onStreamProgress_open_events)
next
  fix s' :: SSE
  assume c: "open_events s' = open_events s"
  show "open_events (snd (case parseEventChunk (chunk s') of
         None \<Rightarrow> (None, s')
       | Some streamData \<Rightarrow>
           then_do (call_dispatchEvent run s' streamData) (\<lambda>s. (None, s\<lparr>chunk := []\<rparr>)))) =
       open_events s"
  proof (cases "parseEventChunk (chunk s')")
    case None
    then show ?thesis using c by simp
  next
    case (Some ev)
    then have "ev \<noteq> CustomEvent (str ''open'')"
      by (rule parseEventChunk_not_open)
    then show ?thesis
      using Some c by (simp add: flush_open_events)
  qed
qed

lemma closed_by_transport_eq:
  "closed_by_transport = example_stream\<lparr>readyState := CLOSED, chunk := str ''data:x'', progress := 6,
     dispatched := [CustomEventReadyStateChange CONNECTING, CustomEvent (str ''open''),
                    CustomEventReadyStateChange OPEN, CustomEventReadyStateChange CLOSED]\<rparr>"
  by (simp add: closed_by_transport_def example_stream_eq engine_defs string_defs parser_defs)

lemma closed_by_close_eq:
  "closed_by_close = example_stream\<lparr>readyState := CLOSED, chunk := str ''data:x'', progress := 6,
     xhr := False,
     dispatched := [CustomEventReadyStateChange CONNECTING, CustomEvent (str ''open''),
                    CustomEventReadyStateChange OPEN, CustomEventReadyStateChange CLOSED,
                    CustomEvent (str ''abort''), CustomEventReadyStateChange CLOSED],
     xhr_calls := xhr_calls example_stream @ [XhrAbort]\<rparr>"
  by (simp add: closed_by_close_def example_stream_eq engine_defs string_defs parser_defs)

text \<open>
  Against claim C4, which has no data event dispatched once the state is \<^verbatim>\<open>CLOSED\<close>. An
  engine that the ready-state-change callback has closed still holds its transport, and
  the load callback that follows dispatches the event of the pending chunk. And after
  \<^verbatim>\<open>close()\<close>, with the transport released, a load callback still flushes the pending
  chunk into an event.
\<close>

theorem data_event_after_closed:
  "readyState closed_by_transport = CLOSED \<and> xhr closed_by_transport \<and>
   data_events (snd (onStreamLoaded quiet silent closed_by_transport
                       (response DONE (str ''data:x'')) LoadEvent)) =
     data_events closed_by_transport @ [CustomEventData (str ''message'') (str ''x'') None] \<and>
   readyState closed_by_close = CLOSED \<and> \<not> xhr closed_by_close \<and>
   data_events (snd (onStreamLoaded quiet silent closed_by_close
                       (response DONE (str ''data:x'')) LoadEvent)) =
     data_events closed_by_close @ [CustomEventData (str ''message'') (str ''x'') None]"
  by (simp add: closed_by_transport_eq closed_by_close_eq example_stream_eq data_events_def
      engine_defs string_defs parser_defs)

text \<open>
  Claim C4, amended. \<^verbatim>\<open>close()\<close> on an engine that is not closed leaves the state
  \<^verbatim>\<open>CLOSED\<close> and the transport released, whatever the transport calls back from inside
  \<^verbatim>\<open>abort()\<close>. In every state \<^verbatim>\<open>CLOSED\<close>, with or without the transport: each of the five
  transport callbacks leaves the state \<^verbatim>\<open>CLOSED\<close>; an error or abort callback dispatches
  its \<^verbatim>\<open>error\<close> or \<^verbatim>\<open>abort\<close> event and nothing else, and a ready-state-change callback
  dispatches no data event; a progress or load callback does not dispatch the engine's
  \<^verbatim>\<open>open\<close> event. Once the transport is released, a progress callback and a
  ready-state-change callback do nothing at all.
\<close>

theorem callbacks_after_close:
  "(readyState s0 \<noteq> CLOSED \<longrightarrow>
      readyState (snd (close run fired s0)) = CLOSED \<and> \<not> xhr (snd (close run fired s0))) \<and>
   (readyState s = CLOSED \<and> \<not> xhr s \<longrightarrow>
      onStreamProgress run fired s x e = (None, s) \<and>
      checkStreamClosed run s x e = (None, s)) \<and>
   (readyState s = CLOSED \<longrightarrow>
      dispatched (snd (onStreamFailure run fired s e)) = dispatched s @ [CustomEventError e] \<and>
      dispatched (snd (onStreamAbort run fired s e)) = dispatched s @ [CustomEvent (str ''abort'')] \<and>
      data_events (snd (onStreamFailure run fired s e)) = data_events s \<and>
      data_events (snd (onStreamAbort run fired s e)) = data_events s \<and>
      data_events (snd (checkStreamClosed run s x e)) = data_events s \<and>
      open_events (snd (onStreamProgress run fired s x e)) = open_events s \<and>
      open_events (snd (onStreamLoaded run fired s x e)) = open_events s \<and>
      readyState (snd (onStreamProgress run fired s x e)) = CLOSED \<and>
      readyState (snd (onStreamLoaded run fired s x e)) = CLOSED \<and>
      readyState (snd (onStreamFailure run fired s e)) = CLOSED \<and>
      readyState (snd (onStreamAbort run fired s e)) = CLOSED \<and>
      readyState (snd (checkStreamClosed run s x e)) = CLOSED)"
proof (intro conjI impI)
  assume "readyState s0 \<noteq> CLOSED"
  then show "readyState (snd (close run fired s0)) = CLOSED" "\<not> xhr (snd (close run fired s0))"
    by (simp_all add: close_trace)
next
  assume a: "readyState s = CLOSED \<and> \<not> xhr s"
  show "onStreamProgress run fired s x e = (None, s)" "checkStreamClosed run s x e = (None, s)"
    using a by (simp_all add: onStreamProgress_def checkStreamClosed_def)
next
  assume c: "readyState s = CLOSED"
  show f: "dispatched (snd (onStreamFailure run fired s e)) = dispatched s @ [CustomEventError e]"
    and b: "dispatched (snd (onStreamAbort run fired s e)) =
            dispatched s @ [CustomEvent (str ''abort'')]"
    using c closed_failure_trace by simp_all
  show "data_events (snd (onStreamFailure run fired s e)) = data_events s"
    using f by (simp add: data_events_def)
  show "data_events (snd (onStreamAbort run fired s e)) = data_events s"
    using b by (simp add: data_events_def)
  show "data_events (snd (checkStreamClosed run s x e)) = data_events s"
    by (rule checkStreamClosed_data_events)
  show "open_events (snd (onStreamProgress run fired s x e)) = open_events s"
    using c by (rule onStreamProgress_open_events)
  show "open_events (snd (onStreamLoaded run fired s x e)) = open_events s"
    using c by (rule onStreamLoaded_open_events)
  show "readyState (snd (onStreamProgress run fired s x e)) = CLOSED"
    using c by (rule onStreamProgress_closed)
  show "readyState (snd (onStreamLoaded run fired s x e)) = CLOSED"
    using c by (rule onStreamLoaded_closed)
  show "readyState (snd (onStreamFailure run fired s e)) = CLOSED"
    using c onStreamFailure_closed[of run fired s e] by auto
  show "readyState (snd (onStreamAbort run fired s e)) = CLOSED"
    using c onStreamAbort_closed[of run fired s e] by auto
  show "readyState (snd (checkStreamClosed run s x e)) = CLOSED"
    using c by (rule checkStreamClosed_closed)
qed

text \<open>
  The engine closed by \<^verbatim>\<open>close()\<close> with a chunk pending, and the engine closed by the
  transport, which it still holds.
\<close>

theorem callbacks_after_close_witness:
  "readyState (snd (close quiet (in_flight quiet) example_stream)) = CLOSED \<and>
   onStreamProgress quiet silent closed_by_close (response 3 (str ''data:x\<newline>\<newline>'')) ProgressEvent =
     (None, closed_by_close) \<and>
   dispatched (snd (onStreamFailure quiet silent closed_by_transport ErrorEvent)) =
     dispatched closed_by_transport @ [CustomEventError ErrorEvent] \<and>
   data_events (snd (onStreamAbort quiet silent closed_by_transport AbortEvent)) =
     data_events closed_by_transport \<and>
   data_events (snd (checkStreamClosed quiet closed_by_transport
                       (response DONE (str ''data:x'')) ReadyStateChangeEvent)) =
     data_events closed_by_transport \<and>
   open_events (snd (onStreamLoaded quiet silent closed_by_transport
                       (response DONE (str ''data:x'')) LoadEvent)) =
     open_events closed_by_transport \<and>
   readyState (snd (onStreamLoaded quiet silent closed_by_close
                      (response DONE (str ''data:x'')) LoadEvent)) = CLOSED"
proof -
  have o: "readyState example_stream \<noteq> CLOSED"
    by (simp add: example_stream_eq)
  have c: "readyState closed_by_close = CLOSED \<and> \<not> xhr closed_by_close"
    by (simp add: closed_by_close_eq)
  have t: "readyState closed_by_transport = CLOSED"
    by (simp add: closed_by_transport_eq)
  show ?thesis
    using callbacks_after_close[of example_stream quiet "in_flight quiet" closed_by_close
        "response 3 (str ''data:x\<newline>\<newline>'')" ProgressEvent]
      callbacks_after_close[of example_stream quiet silent closed_by_close
        "response 3 (str ''data:x\<newline>\<newline>'')" ProgressEvent]
      callbacks_after_close[of example_stream quiet silent closed_by_transport
        "response DONE (str ''data:x'')" ErrorEvent]
      callbacks_after_close[of example_stream quiet silent closed_by_transport
        "response DONE (str ''data:x'')" AbortEvent]
      callbacks_after_close[of example_stream quiet silent closed_by_transport
        "response DONE (str ''data:x'')" ReadyStateChangeEvent]
      callbacks_after_close[of example_stream quiet silent closed_by_transport
        "response DONE (str ''data:x'')" LoadEvent]
      callbacks_after_close[of example_stream quiet silent closed_by_close
        "response DONE (str ''data:x'')" LoadEvent]
      o c t
    by simp
qed

section \<open>Increments of the response\<close>

text \<open>
  Claim C1 has the same data events for every way of cutting a response into increments.
  The response \<^verbatim>\<open>data:a\n\ndata:b\n\n\<close> received at once gives the events \<^verbatim>\<open>a\<close> and
  \<^verbatim>\<open>b\<close>; cut between the two line breaks of its first delimiter it gives the single
  event \<^verbatim>\<open>ab\<close>: the delimiter is looked for in each increment on its own, and the two
  halves of the delimiter end up inside the pending chunk.
\<close>

theorem delimiter_split_across_increments:
  "data_events (deliver run example_stream [str ''data:a\<newline>'', str ''\<newline>data:b\<newline>\<newline>'']) =
     [CustomEvent (str ''open''), CustomEventData (str ''message'') (str ''ab'') None] \<and>
   data_events (deliver run example_stream [str ''data:a\<newline>\<newline>data:b\<newline>\<newline>'']) =
     [CustomEvent (str ''open''), CustomEventData (str ''message'') (str ''a'') None,
      CustomEventData (str ''message'') (str ''b'') None]"
  by (simp add: deliver_def data_events_def example_stream_eq engine_defs parser_defs string_defs)

end
